theory Spec2Isabelle
  imports Complex_Main "HOL-Library.Word"
begin

section \<open>Strings of the script\<close>

text \<open>
  A JavaScript string is a sequence of 16-bit code units. Literals of the script that are
  plain ASCII are written through \<open>ascii\<close>; the two literals with a character outside
  ASCII (the ellipsis of the pending label, the dash of the subject line) give the code
  unit by its number.
\<close>

type_synonym jsstring = "16 word list"

definition ascii :: "string \<Rightarrow> jsstring" where
  "ascii s = map (\<lambda>c. of_nat (of_char c)) s"

text \<open>
  \<open>String.prototype.trim\<close> removes, at both ends, the code units that are WhiteSpace or
  LineTerminator: TAB, LF, VT, FF, CR, SP, NBSP, the Unicode space separators, LS, PS and
  the byte order mark.
\<close>

definition isWhiteSpace :: "16 word \<Rightarrow> bool" where
  "isWhiteSpace c \<longleftrightarrow>
     c = 0x9 \<or> c = 0xA \<or> c = 0xB \<or> c = 0xC \<or> c = 0xD \<or> c = 0x20 \<or> c = 0xA0 \<or>
     c = 0x1680 \<or> (0x2000 \<le> c \<and> c \<le> 0x200A) \<or> c = 0x2028 \<or> c = 0x2029 \<or>
     c = 0x202F \<or> c = 0x205F \<or> c = 0x3000 \<or> c = 0xFEFF"

definition trim :: "jsstring \<Rightarrow> jsstring" where
  "trim s = rev (dropWhile isWhiteSpace (rev (dropWhile isWhiteSpace s)))"

text \<open>\<open>s.includes(t)\<close>: \<open>t\<close> occurs in \<open>s\<close> as a contiguous run of code units.\<close>

fun startsWith :: "jsstring \<Rightarrow> jsstring \<Rightarrow> bool" where
  "startsWith s [] = True"
| "startsWith [] (c # t) = False"
| "startsWith (d # s) (c # t) = (d = c \<and> startsWith s t)"

fun js_includes :: "jsstring \<Rightarrow> jsstring \<Rightarrow> bool" where
  "js_includes [] t = (t = [])"
| "js_includes (d # s) t = (startsWith (d # s) t \<or> js_includes s t)"

section \<open>Form controls\<close>

text \<open>
  What the script reads and writes of a form control: its \<open>id\<close>, its \<open>type\<close>, its
  current \<open>value\<close>, the default value that \<open>form.reset()\<close> restores (given by the
  markup), the \<open>required\<close> attribute, the class list and the \<open>aria-invalid\<close> attribute
  (\<open>None\<close> when the attribute is absent).
\<close>

record field =
  fid :: jsstring
  ftype :: jsstring
  fvalue :: jsstring
  defaultValue :: jsstring
  required :: bool
  classList :: "jsstring list"
  ariaInvalid :: "jsstring option"

text \<open>\<open>classList.add\<close>, \<open>classList.remove\<close>, \<open>classList.contains\<close> on the ordered token set.\<close>

definition classList_add :: "jsstring \<Rightarrow> jsstring list \<Rightarrow> jsstring list" where
  "classList_add t cl = (if t \<in> set cl then cl else cl @ [t])"

definition classList_remove :: "jsstring \<Rightarrow> jsstring list \<Rightarrow> jsstring list" where
  "classList_remove t cl = filter (\<lambda>u. u \<noteq> t) cl"

definition classList_contains :: "jsstring \<Rightarrow> jsstring list \<Rightarrow> bool" where
  "classList_contains t cl \<longleftrightarrow> t \<in> set cl"

definition is_error :: jsstring where
  "is_error = ascii ''is-error''"

text \<open>\<open>clearError(field)\<close>, lines 170-173.\<close>

definition clearError :: "field \<Rightarrow> field" where
  "clearError f = f\<lparr>classList := classList_remove is_error (classList f), ariaInvalid := None\<rparr>"

text \<open>
  \<open>validateField(field)\<close>, lines 175-185: the returned boolean and the field as the call
  leaves it. A string is truthy when it is not empty.
\<close>

definition validateField :: "field \<Rightarrow> bool \<times> field" where
  "validateField f =
    (let empty = (trim (fvalue f) = []);
         badEmail = (ftype f = ascii ''email'' \<and> fvalue f \<noteq> [] \<and> \<not> js_includes (fvalue f) (ascii ''@''))
     in if empty \<or> badEmail
        then (False, f\<lparr>classList := classList_add is_error (classList f),
                       ariaInvalid := Some (ascii ''true'')\<rparr>)
        else (True, clearError f))"

text \<open>The error state of the specification: the visible indicator and the accessibility marker.\<close>

definition hasErrorClass :: "field \<Rightarrow> bool" where
  "hasErrorClass f \<longleftrightarrow> classList_contains is_error (classList f)"

section \<open>The page\<close>

text \<open>
  JSON values: the body handed to \<open>JSON.stringify\<close> and the value \<open>res.json()\<close> resolves
  with. An object is its list of members, each name once. A number is kept by its value;
  only whether it is zero is ever examined.
\<close>

datatype json =
  JNull
| JBool bool
| JNum rat
| JStr jsstring
| JArr "json list"
| JObj "(jsstring \<times> json) list"

text \<open>A child node of the submit control: a text node or an element with its own children.\<close>

datatype node =
  TextNode jsstring
| ElementNode jsstring "node list"

text \<open>\<open>n.cloneNode(true)\<close>: the deep copy has the structure of the node.\<close>

definition cloneNode :: "node \<Rightarrow> node" where
  "cloneNode n = n"

record button =
  disabled :: bool
  childNodes :: "node list"

datatype jserror = TypeError | RangeError

record request =
  url :: jsstring
  httpMethod :: jsstring
  headers :: "(jsstring \<times> jsstring) list"
  body :: json

text \<open>
  The variables of \<open>initContactForm\<close> that its closures capture and that differ from page to
  page: \<open>required\<close> (the elements \<open>qsa('[required]', form)\<close> found, as positions in the
  form's controls) and \<open>btnSnapshot\<close>.
\<close>

record env =
  req :: "nat list"
  btnSnapshot :: "node list"

datatype target = FieldT nat | FormT

datatype evtype = Blur | Input | Submit

text \<open>
  The three listener closures: line 188 (\<open>validateField(field)\<close>), line 189
  (\<open>clearError(field)\<close>) and lines 192-247 (the submit handler).
\<close>

datatype callback = OnBlur nat | OnInput nat | OnSubmit env

text \<open>The only timer callback of the component, line 237: \<open>successEl.hidden = true\<close>.\<close>

datatype timer_callback = HideSuccess

text \<open>
  The part of the document and of the runtime that the component touches.
  \<open>contactForm\<close> tells whether \<open>#contactForm\<close> exists; \<open>controls\<close> are the form's controls
  in document order; \<open>submitBtn\<close> is the first \<open>[type="submit"]\<close> element of the form;
  \<open>formSuccess\<close> is the \<open>hidden\<close> property of \<open>#formSuccess\<close> (\<open>None\<close>: no such
  element); \<open>activeElement\<close> is the control that holds the focus. \<open>listeners\<close> are the
  registered event listeners, \<open>requests\<close> the \<open>fetch\<close> calls made so far, \<open>inflight\<close>
  the requests whose promise has not settled (by position in \<open>requests\<close>, with the
  environment of the callbacks chained to it), \<open>timers\<close> the pending timeouts with their
  delay in milliseconds, \<open>alerts\<close> the alert dialogs shown, \<open>scrolls\<close> the number of
  \<open>successEl.scrollIntoView\<close> calls, \<open>defaultPrevented\<close> whether the last submit event had
  its default action cancelled, and \<open>uncaught\<close> the exceptions that escaped a handler.
\<close>

record page =
  contactForm :: bool
  controls :: "field list"
  submitBtn :: "button option"
  formSuccess :: "bool option"
  activeElement :: "nat option"
  listeners :: "(target \<times> evtype \<times> callback) list"
  requests :: "request list"
  inflight :: "(nat \<times> env) list"
  timers :: "(nat \<times> timer_callback) list"
  alerts :: "jsstring list"
  scrolls :: nat
  defaultPrevented :: bool
  uncaught :: "jserror list"

subsection \<open>The helpers of \<open>initContactForm\<close>\<close>

definition sending :: jsstring where
  "sending = ascii ''Sending'' @ [0x2026]"

text \<open>\<open>setSubmitting(on)\<close>, lines 161-168, on the submit control.\<close>

definition setSubmitting :: "node list \<Rightarrow> bool \<Rightarrow> button \<Rightarrow> button" where
  "setSubmitting snap on b =
    (let b1 = b\<lparr>disabled := on\<rparr>
     in if on then b1\<lparr>childNodes := [TextNode sending]\<rparr>
        else b1\<lparr>childNodes := map cloneNode snap\<rparr>)"

text \<open>
  A call on the element a closure holds. The positions a closure holds are those of
  elements of the form, so the guard never fails on a page the component initialised; it
  makes the model total.
\<close>

definition validateAt :: "nat \<Rightarrow> page \<Rightarrow> bool \<times> page" where
  "validateAt i p =
    (if i < length (controls p)
     then (fst (validateField (controls p ! i)),
           p\<lparr>controls := (controls p)[i := snd (validateField (controls p ! i))]\<rparr>)
     else (True, p))"

definition clearErrorAt :: "nat \<Rightarrow> page \<Rightarrow> page" where
  "clearErrorAt i p =
    (if i < length (controls p)
     then p\<lparr>controls := (controls p)[i := clearError (controls p ! i)]\<rparr>
     else p)"

text \<open>
  Line 196, \<open>required.forEach(field => { if (!validateField(field)) valid = false; })\<close>,
  with \<open>valid\<close> as the accumulator.
\<close>

fun validateEach :: "nat list \<Rightarrow> bool \<Rightarrow> page \<Rightarrow> bool \<times> page" where
  "validateEach [] valid p = (valid, p)"
| "validateEach (i # rest) valid p =
     (let (ok, p') = validateAt i p
      in validateEach rest (if \<not> ok then False else valid) p')"

text \<open>Line 233, \<open>required.forEach(f => clearError(f))\<close>.\<close>

fun clearEach :: "nat list \<Rightarrow> page \<Rightarrow> page" where
  "clearEach [] p = p"
| "clearEach (i # rest) p = clearEach rest (clearErrorAt i p)"

text \<open>
  \<open>qs('#id', form).value\<close>: the first control of the form with that id; reading \<open>value\<close>
  of \<open>null\<close> is a TypeError.
\<close>

definition valueOf :: "jsstring \<Rightarrow> page \<Rightarrow> jserror + jsstring" where
  "valueOf ident p =
    (case find (\<lambda>f. fid f = ident) (controls p) of
       None \<Rightarrow> Inl TypeError
     | Some f \<Rightarrow> Inr (fvalue f))"

subsection \<open>The clock: \<open>new Date().toISOString()\<close>\<close>

text \<open>
  A time value is a number of milliseconds since the epoch, within 8.64e15 of it. The day
  and time functions are those of the language definition; \<open>YearFromTime\<close>, which the
  definition gives as the largest year starting no later than the time, is computed from
  the 400, 100, 4 and 1 year cycles of the calendar.
\<close>

definition msPerDay :: int where
  "msPerDay = 86400000"

definition validTime :: "int \<Rightarrow> bool" where
  "validTime t \<longleftrightarrow> - 8640000000000000 \<le> t \<and> t \<le> 8640000000000000"

definition Day :: "int \<Rightarrow> int" where
  "Day t = t div msPerDay"

definition DaysInYear :: "int \<Rightarrow> int" where
  "DaysInYear y =
    (if y mod 4 \<noteq> 0 then 365 else if y mod 100 \<noteq> 0 then 366
     else if y mod 400 \<noteq> 0 then 365 else 366)"

definition DayFromYear :: "int \<Rightarrow> int" where
  "DayFromYear y =
     365 * (y - 1970) + (y - 1969) div 4 - (y - 1901) div 100 + (y - 1601) div 400"

definition YearFromDay :: "int \<Rightarrow> int" where
  "YearFromDay d =
    (let n = d + 719162;
         n400 = n div 146097; r = n mod 146097;
         n100 = min (r div 36524) 3; r2 = r - n100 * 36524;
         n4 = r2 div 1461; r3 = r2 mod 1461;
         n1 = min (r3 div 365) 3
     in 400 * n400 + 100 * n100 + 4 * n4 + n1 + 1)"

definition YearFromTime :: "int \<Rightarrow> int" where
  "YearFromTime t = YearFromDay (Day t)"

definition InLeapYear :: "int \<Rightarrow> int" where
  "InLeapYear t = (if DaysInYear (YearFromTime t) = 366 then 1 else 0)"

definition DayWithinYear :: "int \<Rightarrow> int" where
  "DayWithinYear t = Day t - DayFromYear (YearFromTime t)"

definition MonthFromTime :: "int \<Rightarrow> int" where
  "MonthFromTime t =
    (let d = DayWithinYear t; l = InLeapYear t
     in if d < 31 then 0 else if d < 59 + l then 1 else if d < 90 + l then 2
        else if d < 120 + l then 3 else if d < 151 + l then 4 else if d < 181 + l then 5
        else if d < 212 + l then 6 else if d < 243 + l then 7 else if d < 273 + l then 8
        else if d < 304 + l then 9 else if d < 334 + l then 10 else 11)"

definition DateFromTime :: "int \<Rightarrow> int" where
  "DateFromTime t =
    (let d = DayWithinYear t; l = InLeapYear t; m = MonthFromTime t
     in if m = 0 then d + 1 else if m = 1 then d - 30 else if m = 2 then d - 58 - l
        else if m = 3 then d - 89 - l else if m = 4 then d - 119 - l
        else if m = 5 then d - 150 - l else if m = 6 then d - 180 - l
        else if m = 7 then d - 211 - l else if m = 8 then d - 242 - l
        else if m = 9 then d - 272 - l else if m = 10 then d - 303 - l else d - 333 - l)"

definition HourFromTime :: "int \<Rightarrow> int" where
  "HourFromTime t = (t div 3600000) mod 24"

definition MinFromTime :: "int \<Rightarrow> int" where
  "MinFromTime t = (t div 60000) mod 60"

definition SecFromTime :: "int \<Rightarrow> int" where
  "SecFromTime t = (t div 1000) mod 60"

definition msFromTime :: "int \<Rightarrow> int" where
  "msFromTime t = t mod 1000"

text \<open>Decimal digits, most significant first, padded with zeros to a fixed width.\<close>

definition digit :: "int \<Rightarrow> 16 word" where
  "digit n = of_nat (48 + nat (n mod 10))"

fun pad :: "nat \<Rightarrow> int \<Rightarrow> jsstring" where
  "pad 0 n = []"
| "pad (Suc k) n = pad k (n div 10) @ [digit n]"

text \<open>
  \<open>Date.prototype.toISOString\<close>: \<open>YYYY-MM-DDTHH:mm:ss.sssZ\<close>, the year with a sign and six
  digits when it is not within 0 to 9999; a RangeError for an invalid date.
\<close>

definition toISOString :: "int \<Rightarrow> jserror + jsstring" where
  "toISOString t =
    (if \<not> validTime t then Inl RangeError
     else let y = YearFromTime t;
              year = (if 0 \<le> y \<and> y \<le> 9999 then pad 4 y
                      else (if 0 \<le> y then ascii ''+'' else ascii ''-'') @ pad 6 \<bar>y\<bar>)
          in Inr (year @ ascii ''-'' @ pad 2 (MonthFromTime t + 1) @ ascii ''-'' @
                  pad 2 (DateFromTime t) @ ascii ''T'' @ pad 2 (HourFromTime t) @ ascii '':'' @
                  pad 2 (MinFromTime t) @ ascii '':'' @ pad 2 (SecFromTime t) @ ascii ''.'' @
                  pad 3 (msFromTime t) @ ascii ''Z''))"

text \<open>
  What makes a string a date and time of ISO 8601 in the form the language uses: a year
  of four digits, or of six digits with a sign, then \<open>-MM-DDTHH:mm:ss.sssZ\<close> with a month
  from 01 to 12, a day that the month has in that year, an hour up to 23, and minutes and
  seconds up to 59.
\<close>

definition isDigit :: "16 word \<Rightarrow> bool" where
  "isDigit c \<longleftrightarrow> 0x30 \<le> c \<and> c \<le> 0x39"

definition digitValue :: "16 word \<Rightarrow> int" where
  "digitValue c = uint c - 48"

definition number :: "jsstring \<Rightarrow> int" where
  "number cs = foldl (\<lambda>a c. 10 * a + digitValue c) 0 cs"

definition daysInMonth :: "int \<Rightarrow> int \<Rightarrow> int" where
  "daysInMonth y m =
    (if m = 2 then (if DaysInYear y = 366 then 29 else 28)
     else if m = 4 \<or> m = 6 \<or> m = 9 \<or> m = 11 then 30 else 31)"

definition isoDateTime :: "int \<Rightarrow> jsstring \<Rightarrow> bool" where
  "isoDateTime y s \<longleftrightarrow>
     length s = 20 \<and> s ! 0 = 0x2D \<and> s ! 3 = 0x2D \<and> s ! 6 = 0x54 \<and> s ! 9 = 0x3A \<and>
     s ! 12 = 0x3A \<and> s ! 15 = 0x2E \<and> s ! 19 = 0x5A \<and>
     list_all isDigit (take 2 (drop 1 s) @ take 2 (drop 4 s) @ take 2 (drop 7 s) @
       take 2 (drop 10 s) @ take 2 (drop 13 s) @ take 3 (drop 16 s)) \<and>
     1 \<le> number (take 2 (drop 1 s)) \<and> number (take 2 (drop 1 s)) \<le> 12 \<and>
     1 \<le> number (take 2 (drop 4 s)) \<and>
     number (take 2 (drop 4 s)) \<le> daysInMonth y (number (take 2 (drop 1 s))) \<and>
     number (take 2 (drop 7 s)) \<le> 23 \<and> number (take 2 (drop 10 s)) \<le> 59 \<and>
     number (take 2 (drop 13 s)) \<le> 59"

definition isISO8601 :: "jsstring \<Rightarrow> bool" where
  "isISO8601 s \<longleftrightarrow>
     (length s = 24 \<and> list_all isDigit (take 4 s) \<and>
        isoDateTime (number (take 4 s)) (drop 4 s))
   \<or> (length s = 27 \<and> (s ! 0 = 0x2B \<or> s ! 0 = 0x2D) \<and> list_all isDigit (take 6 (drop 1 s)) \<and>
        isoDateTime ((if s ! 0 = 0x2D then - 1 else 1) * number (take 6 (drop 1 s))) (drop 7 s))"

subsection \<open>The submit handler, lines 192-247\<close>

record formData =
  fd_name :: jsstring
  fd_email :: jsstring
  fd_business :: jsstring
  fd_description :: jsstring
  fd_budget :: jsstring
  fd_timestamp :: jsstring

text \<open>
  Lines 204-211. The properties are evaluated in the order written, and the first lookup
  that finds no element, or an invalid date, throws.
\<close>

definition buildFormData :: "int \<Rightarrow> page \<Rightarrow> jserror + formData" where
  "buildFormData now p =
    (case valueOf (ascii ''cname'') p of Inl x \<Rightarrow> Inl x | Inr n \<Rightarrow>
    (case valueOf (ascii ''cemail'') p of Inl x \<Rightarrow> Inl x | Inr m \<Rightarrow>
    (case valueOf (ascii ''cbusiness'') p of Inl x \<Rightarrow> Inl x | Inr b \<Rightarrow>
    (case valueOf (ascii ''cdesc'') p of Inl x \<Rightarrow> Inl x | Inr d \<Rightarrow>
    (case valueOf (ascii ''cbudget'') p of Inl x \<Rightarrow> Inl x | Inr g \<Rightarrow>
    (case toISOString now of Inl x \<Rightarrow> Inl x | Inr ts \<Rightarrow>
       Inr \<lparr>fd_name = trim n, fd_email = trim m, fd_business = trim b,
            fd_description = trim d, fd_budget = g, fd_timestamp = ts\<rparr>))))))"

definition subjectPrefix :: jsstring where
  "subjectPrefix = ascii ''New consultation request '' @ [0x2014] @ ascii '' ''"

text \<open>The argument of \<open>fetch\<close>, lines 215-228; \<open>body\<close> is the object that is serialised.\<close>

definition mkRequest :: "formData \<Rightarrow> request" where
  "mkRequest fd =
    \<lparr>url = ascii ''https://formspree.io/f/xnjbrllk'',
     httpMethod = ascii ''POST'',
     headers = [(ascii ''Content-Type'', ascii ''application/json''),
                (ascii ''Accept'', ascii ''application/json'')],
     body = JObj [(ascii ''name'', JStr (fd_name fd)),
                  (ascii ''email'', JStr (fd_email fd)),
                  (ascii ''business'', JStr (fd_business fd)),
                  (ascii ''description'', JStr (fd_description fd)),
                  (ascii ''budget'', JStr (fd_budget fd)),
                  (ascii ''timestamp'', JStr (fd_timestamp fd)),
                  (ascii ''_replyto'', JStr (fd_email fd)),
                  (ascii ''_subject'', JStr (subjectPrefix @ fd_business fd))]\<rparr>"

text \<open>
  The handler up to the \<open>fetch\<close> call. \<open>now\<close> is the clock at the moment of the event. An
  exception leaves the page as the statements before it made it.
\<close>

definition onSubmit :: "env \<Rightarrow> int \<Rightarrow> page \<Rightarrow> page" where
  "onSubmit e now p =
    (let p0 = p\<lparr>defaultPrevented := True\<rparr>;
         (valid, p1) = validateEach (req e) True p0
     in if \<not> valid
        then (case find (\<lambda>i. i < length (controls p1) \<and> hasErrorClass (controls p1 ! i)) (req e) of
                Some first \<Rightarrow> p1\<lparr>activeElement := Some first\<rparr>
              | None \<Rightarrow> p1)
        else (case buildFormData now p1 of
                Inl x \<Rightarrow> p1\<lparr>uncaught := uncaught p1 @ [x]\<rparr>
              | Inr fd \<Rightarrow>
                  p1\<lparr>submitBtn := map_option (setSubmitting (btnSnapshot e) True) (submitBtn p1),
                     requests := requests p1 @ [mkRequest fd],
                     inflight := inflight p1 @ [(length (requests p1), e)]\<rparr>))"

subsection \<open>The promise chain, lines 229-246\<close>

text \<open>
  How a \<open>fetch\<close> call ends: the promise rejects, or it resolves with a response, whose
  body \<open>res.json()\<close> either parses (\<open>Some\<close>) or fails to parse (\<open>None\<close>, the promise of
  \<open>res.json()\<close> rejects).
\<close>

datatype fetch_result = Rejects | Resolves "json option"

text \<open>
  \<open>data.ok\<close>: a TypeError on \<open>null\<close>; the member of an object, \<open>undefined\<close> (\<open>None\<close>) when
  there is none; \<open>undefined\<close> on a boolean, a number, a string and an array.
\<close>

fun get_ok :: "json \<Rightarrow> jserror + json option" where
  "get_ok JNull = Inl TypeError"
| "get_ok (JObj members) = Inr (map_of members (ascii ''ok''))"
| "get_ok _ = Inr None"

text \<open>The member of a JSON object with a given name.\<close>

fun member :: "jsstring \<Rightarrow> json \<Rightarrow> json option" where
  "member k (JObj members) = map_of members k"
| "member k _ = None"

text \<open>The truth value that \<open>if\<close> gives a value.\<close>

fun truthy :: "json option \<Rightarrow> bool" where
  "truthy None = False"
| "truthy (Some JNull) = False"
| "truthy (Some (JBool b)) = b"
| "truthy (Some (JNum x)) = (x \<noteq> 0)"
| "truthy (Some (JStr s)) = (s \<noteq> [])"
| "truthy (Some (JArr _)) = True"
| "truthy (Some (JObj _)) = True"

definition alertRejected :: jsstring where
  "alertRejected = ascii
    ''Something went wrong. Please try again or email us directly at info@grandriverdigital.ca''"

definition alertNetwork :: jsstring where
  "alertNetwork = ascii ''Network error. Please check your connection and try again.''"

text \<open>\<open>form.reset()\<close>: every control of the form takes its default value again.\<close>

definition form_reset :: "page \<Rightarrow> page" where
  "form_reset p = p\<lparr>controls := map (\<lambda>f. f\<lparr>fvalue := defaultValue f\<rparr>) (controls p)\<rparr>"

text \<open>Lines 232-237, the branch \<open>if (data.ok)\<close>.\<close>

definition thenSuccess :: "env \<Rightarrow> page \<Rightarrow> page" where
  "thenSuccess e p =
    (let p1 = form_reset p;
         p2 = clearEach (req e) p1;
         p3 = p2\<lparr>submitBtn := map_option (setSubmitting (btnSnapshot e) False) (submitBtn p2)\<rparr>;
         p4 = p3\<lparr>formSuccess := map_option (\<lambda>_. False) (formSuccess p3)\<rparr>;
         p5 = p4\<lparr>scrolls := Suc (scrolls p4)\<rparr>
     in p5\<lparr>timers := timers p5 @ [(8000, HideSuccess)]\<rparr>)"

text \<open>Lines 239-240, the \<open>else\<close> branch.\<close>

definition thenRejected :: "env \<Rightarrow> page \<Rightarrow> page" where
  "thenRejected e p =
    (let p1 = p\<lparr>submitBtn := map_option (setSubmitting (btnSnapshot e) False) (submitBtn p)\<rparr>
     in p1\<lparr>alerts := alerts p1 @ [alertRejected]\<rparr>)"

text \<open>Lines 244-245, the \<open>catch\<close> callback.\<close>

definition catchFailure :: "env \<Rightarrow> page \<Rightarrow> page" where
  "catchFailure e p =
    (let p1 = p\<lparr>submitBtn := map_option (setSubmitting (btnSnapshot e) False) (submitBtn p)\<rparr>
     in p1\<lparr>alerts := alerts p1 @ [alertNetwork]\<rparr>)"

text \<open>
  The callback of line 230: it throws where \<open>data.ok\<close> does, before either branch has
  begun, and otherwise runs one of the two branches.
\<close>

definition thenData :: "env \<Rightarrow> json \<Rightarrow> page \<Rightarrow> jserror + page" where
  "thenData e d p =
    (case get_ok d of
       Inl x \<Rightarrow> Inl x
     | Inr v \<Rightarrow> Inr (if truthy v then thenSuccess e p else thenRejected e p))"

text \<open>
  The chain \<open>fetch(...).then(res => res.json()).then(data => ...).catch(...)\<close>: a rejection
  at any stage skips the remaining \<open>then\<close> callbacks and reaches the \<open>catch\<close> callback.
\<close>

definition settle :: "env \<Rightarrow> fetch_result \<Rightarrow> page \<Rightarrow> page" where
  "settle e r p =
    (case r of
       Rejects \<Rightarrow> catchFailure e p
     | Resolves None \<Rightarrow> catchFailure e p
     | Resolves (Some d) \<Rightarrow>
         (case thenData e d p of Inl x \<Rightarrow> catchFailure e p | Inr p' \<Rightarrow> p'))"

text \<open>
  The three outcomes of a submission, and which of them a \<open>fetch\<close> result leads to: the
  branch of the chain that runs.
\<close>

datatype outcome = Success | RemoteRejection | NetworkFailure

fun outcomeOf :: "fetch_result \<Rightarrow> outcome" where
  "outcomeOf Rejects = NetworkFailure"
| "outcomeOf (Resolves None) = NetworkFailure"
| "outcomeOf (Resolves (Some d)) =
     (case get_ok d of
        Inl x \<Rightarrow> NetworkFailure
      | Inr v \<Rightarrow> if truthy v then Success else RemoteRejection)"

fun runBranch :: "outcome \<Rightarrow> env \<Rightarrow> page \<Rightarrow> page" where
  "runBranch Success e p = thenSuccess e p"
| "runBranch RemoteRejection e p = thenRejected e p"
| "runBranch NetworkFailure e p = catchFailure e p"

subsection \<open>\<open>initContactForm\<close>, lines 152-248\<close>

text \<open>
  Without the form or the success element the function returns at line 155. Without a
  submit control line 159 throws. Otherwise it registers a blur and an input listener on
  every required control, in document order (lines 187-190), and the submit listener on
  the form.
\<close>

definition fieldListeners :: "nat list \<Rightarrow> (target \<times> evtype \<times> callback) list" where
  "fieldListeners r = concat (map (\<lambda>i. [(FieldT i, Blur, OnBlur i), (FieldT i, Input, OnInput i)]) r)"

definition initContactForm :: "page \<Rightarrow> page" where
  "initContactForm p =
    (if \<not> contactForm p \<or> formSuccess p = None then p
     else case submitBtn p of
       None \<Rightarrow> p\<lparr>uncaught := uncaught p @ [TypeError]\<rparr>
     | Some b \<Rightarrow>
        (let e = \<lparr>req = filter (\<lambda>i. required (controls p ! i)) [0..<length (controls p)],
                  btnSnapshot = map cloneNode (childNodes b)\<rparr>
         in p\<lparr>listeners := listeners p @ fieldListeners (req e) @ [(FormT, Submit, OnSubmit e)]\<rparr>))"

subsection \<open>Events\<close>

text \<open>Running a listener; \<open>now\<close> is the clock when the event is dispatched.\<close>

fun run :: "callback \<Rightarrow> int \<Rightarrow> page \<Rightarrow> page" where
  "run (OnBlur i) now p = snd (validateAt i p)"
| "run (OnInput i) now p = clearErrorAt i p"
| "run (OnSubmit e) now p = onSubmit e now p"

text \<open>Dispatching an event runs the listeners registered for its target and type, in order.\<close>

definition dispatch :: "target \<Rightarrow> evtype \<Rightarrow> int \<Rightarrow> page \<Rightarrow> page" where
  "dispatch t ty now p =
     fold (\<lambda>(t', ty', cb) q. if t' = t \<and> ty' = ty then run cb now q else q) (listeners p) p"

text \<open>
  What can happen to the page: a control loses the focus; the user edits a control (its
  value changes, then an input event fires); the form is submitted; a request settles; a
  timer fires. Every event happens at some reading of the clock.
\<close>

datatype event =
  UserBlur nat
| UserInput nat jsstring
| UserSubmit
| FetchSettles nat fetch_result
| TimerFires nat

fun runTimer :: "timer_callback \<Rightarrow> page \<Rightarrow> page" where
  "runTimer HideSuccess p = p\<lparr>formSuccess := map_option (\<lambda>_. True) (formSuccess p)\<rparr>"

fun step :: "int \<times> event \<Rightarrow> page \<Rightarrow> page" where
  "step (now, UserBlur i) p = dispatch (FieldT i) Blur now p"
| "step (now, UserInput i v) p =
     dispatch (FieldT i) Input now
       (if i < length (controls p)
        then p\<lparr>controls := (controls p)[i := (controls p ! i)\<lparr>fvalue := v\<rparr>]\<rparr> else p)"
| "step (now, UserSubmit) p = dispatch FormT Submit now p"
| "step (now, FetchSettles k r) p =
     (case map_of (inflight p) k of
        None \<Rightarrow> p
      | Some e \<Rightarrow> settle e r (p\<lparr>inflight := filter (\<lambda>(k', _). k' \<noteq> k) (inflight p)\<rparr>))"
| "step (now, TimerFires k) p =
     (if k < length (timers p)
      then runTimer (snd (timers p ! k)) (p\<lparr>timers := take k (timers p) @ drop (Suc k) (timers p)\<rparr>)
      else p)"

definition steps :: "(int \<times> event) list \<Rightarrow> page \<Rightarrow> page" where
  "steps evs p = fold step evs p"

subsection \<open>The initialised page\<close>

text \<open>
  The page as \<open>initContactForm\<close> leaves it when it runs to its end, and as every later
  event keeps it: the listeners are those of the component with environment \<open>e\<close>, whose
  \<open>required\<close> are the controls with the \<open>required\<close> attribute, and the submit control
  and the success element exist.
\<close>

definition ready :: "env \<Rightarrow> page \<Rightarrow> bool" where
  "ready e p \<longleftrightarrow>
     listeners p = fieldListeners (req e) @ [(FormT, Submit, OnSubmit e)] \<and>
     req e = filter (\<lambda>i. required (controls p ! i)) [0..<length (controls p)] \<and>
     submitBtn p \<noteq> None \<and> formSuccess p \<noteq> None \<and>
     (\<forall>x\<in>set (inflight p). snd x = e)"

text \<open>What of a page, besides the requests in flight, decides \<open>ready\<close>.\<close>

definition skeleton ::
  "page \<Rightarrow> (target \<times> evtype \<times> callback) list \<times> bool list \<times> bool \<times> bool" where
  "skeleton p =
     (listeners p, map required (controls p), submitBtn p = None, formSuccess p = None)"

text \<open>A page on which no script has run yet.\<close>

definition fresh :: "page \<Rightarrow> bool" where
  "fresh p \<longleftrightarrow> listeners p = [] \<and> requests p = [] \<and> inflight p = [] \<and> timers p = []"



text \<open>The events whose listeners call \<open>validateField\<close>: blur (line 188) and submit (line 196).\<close>

fun validates :: "event \<Rightarrow> bool" where
  "validates (UserBlur i) = True"
| "validates UserSubmit = True"
| "validates _ = False"

text \<open>A control passes validation.\<close>

definition passes :: "field \<Rightarrow> bool" where
  "passes f \<longleftrightarrow> fst (validateField f)"





subsection \<open>A sample page\<close>

text \<open>
  A page with the five controls the submit handler reads, a submit control labelled
  \<open>Send\<close> and a hidden success element, before \<open>initContactForm\<close> has run. The budget
  control is not required.
\<close>

definition mkField :: "string \<Rightarrow> string \<Rightarrow> string \<Rightarrow> bool \<Rightarrow> field" where
  "mkField i t v r =
     \<lparr>fid = ascii i, ftype = ascii t, fvalue = ascii v, defaultValue = [], required = r,
      classList = [], ariaInvalid = None\<rparr>"

definition samplePage :: "field list \<Rightarrow> page" where
  "samplePage cs =
     \<lparr>contactForm = True, controls = cs,
      submitBtn = Some \<lparr>disabled = False, childNodes = [TextNode (ascii ''Send'')]\<rparr>,
      formSuccess = Some True, activeElement = None, listeners = [], requests = [],
      inflight = [], timers = [], alerts = [], scrolls = 0, defaultPrevented = False,
      uncaught = []\<rparr>"

definition sampleControls :: "string \<Rightarrow> string \<Rightarrow> string \<Rightarrow> field list" where
  "sampleControls name email budget =
     [mkField ''cname'' ''text'' name True,
      mkField ''cemail'' ''email'' email True,
      mkField ''cbusiness'' ''text'' ''Acme'' True,
      mkField ''cdesc'' ''textarea'' ''Need a site'' True,
      mkField ''cbudget'' ''select-one'' budget False]"

definition sampleEnv :: env where
  "sampleEnv = \<lparr>req = [0, 1, 2, 3], btnSnapshot = [TextNode (ascii ''Send'')]\<rparr>"

text \<open>The sample page after \<open>initContactForm\<close>, and after a submit event at clock 0.\<close>

definition sampleReady :: page where
  "sampleReady = initContactForm (samplePage (sampleControls ''Alice '' ''a@b.com'' ''1000''))"

definition sampleSubmitted :: page where
  "sampleSubmitted = step (0, UserSubmit) sampleReady"

definition sampleFlagged :: page where
  "sampleFlagged =
     step (0, UserSubmit)
       (initContactForm (samplePage (sampleControls ''Alice '' ''not-an-email'' ''1000'')))"

definition okBody :: "json \<Rightarrow> fetch_result" where
  "okBody v = Resolves (Some (JObj [(ascii ''ok'', v)]))"


section \<open>Properties\<close>

lemma includes_single: "js_includes s [c] \<longleftrightarrow> c \<in> set s"
  by (induction s) auto

lemma hasErrorClass_clearError: "\<not> hasErrorClass (clearError f)"
  by (simp add: hasErrorClass_def clearError_def classList_contains_def classList_remove_def)

lemma classList_add_idem: "classList_add t (classList_add t cl) = classList_add t cl"
  by (simp add: classList_add_def)

lemma classList_remove_idem: "classList_remove t (classList_remove t cl) = classList_remove t cl"
  by (simp add: classList_remove_def)

lemma validateField_fst_snd: "fst (validateField (snd (validateField f))) = fst (validateField f)"
  by (simp add: validateField_def Let_def clearError_def)

lemma validateField_snd_snd: "snd (validateField (snd (validateField f))) = snd (validateField f)"
  by (simp add: validateField_def Let_def clearError_def classList_add_idem classList_remove_idem)

lemma validateAt_frame: "snd (validateAt i p) = p\<lparr>controls := controls (snd (validateAt i p))\<rparr>"
  by (simp add: validateAt_def)

lemma validateEach_frame:
  "snd (validateEach ixs v p) = p\<lparr>controls := controls (snd (validateEach ixs v p))\<rparr>"
proof (induction ixs arbitrary: v p)
  case Nil
  show ?case by simp
next
  case (Cons i rest)
  show ?case
  proof (cases "i < length (controls p)")
    case True
    let ?p' = "p\<lparr>controls := (controls p)[i := snd (validateField (controls p ! i))]\<rparr>"
    let ?v' = "if \<not> fst (validateField (controls p ! i)) then False else v"
    have va: "validateAt i p = (fst (validateField (controls p ! i)), ?p')"
      using True by (simp add: validateAt_def)
    have ih: "snd (validateEach rest ?v' ?p') = ?p'\<lparr>controls := controls (snd (validateEach rest ?v' ?p'))\<rparr>"
      by (rule Cons.IH)
    have eq: "snd (validateEach (i # rest) v p) = snd (validateEach rest ?v' ?p')"
      by (simp add: va)
    show ?thesis
      unfolding eq by (subst ih) simp
  next
    case False
    then have va: "validateAt i p = (True, p)" by (simp add: validateAt_def)
    have eq: "snd (validateEach (i # rest) v p) = snd (validateEach rest v p)"
      by (simp add: va)
    show ?thesis unfolding eq by (rule Cons.IH)
  qed
qed

lemma validateEach_length:
  "length (controls (snd (validateEach ixs v p))) = length (controls p)"
  by (induction ixs arbitrary: v p) (auto simp: validateAt_def split: prod.splits if_splits)

lemma validateEach_nth:
  "j < length (controls p) \<Longrightarrow>
   controls (snd (validateEach ixs v p)) ! j =
     (if j \<in> set ixs then snd (validateField (controls p ! j)) else controls p ! j)"
proof (induction ixs arbitrary: v p)
  case Nil
  show ?case by simp
next
  case (Cons i rest)
  show ?case
  proof (cases "i < length (controls p)")
    case True
    let ?p' = "p\<lparr>controls := (controls p)[i := snd (validateField (controls p ! i))]\<rparr>"
    have va: "validateAt i p = (fst (validateField (controls p ! i)), ?p')"
      using True by (simp add: validateAt_def)
    have len: "j < length (controls ?p')" using Cons.prems by simp
    show ?thesis
      using Cons.IH [OF len] Cons.prems True
      by (simp add: va validateField_snd_snd nth_list_update)
  next
    case False
    then have va: "validateAt i p = (True, p)" by (simp add: validateAt_def)
    have "j \<noteq> i" using False Cons.prems by auto
    then show ?thesis using Cons.IH [OF Cons.prems] by (simp add: va)
  qed
qed

lemma validateEach_fst:
  "fst (validateEach ixs v p) \<longleftrightarrow>
     v \<and> (\<forall>i\<in>set ixs. i < length (controls p) \<longrightarrow> fst (validateField (controls p ! i)))"
proof (induction ixs arbitrary: v p)
  case Nil
  show ?case by simp
next
  case (Cons i rest)
  show ?case
  proof (cases "i < length (controls p)")
    case True
    let ?f = "snd (validateField (controls p ! i))"
    let ?p' = "p\<lparr>controls := (controls p)[i := ?f]\<rparr>"
    have va: "validateAt i p = (fst (validateField (controls p ! i)), ?p')"
      using True by (simp add: validateAt_def)
    have same: "\<And>k. k < length (controls p) \<Longrightarrow>
        fst (validateField (controls ?p' ! k)) = fst (validateField (controls p ! k))"
      using True by (simp add: nth_list_update validateField_fst_snd)
    have "(\<forall>k\<in>set rest. k < length (controls ?p') \<longrightarrow> fst (validateField (controls ?p' ! k)))
        = (\<forall>k\<in>set rest. k < length (controls p) \<longrightarrow> fst (validateField (controls p ! k)))"
      using same by auto
    then show ?thesis
      using True by (simp add: va Cons.IH)
  next
    case False
    then have va: "validateAt i p = (True, p)" by (simp add: validateAt_def)
    show ?thesis using False by (simp add: va Cons.IH)
  qed
qed

lemma fieldListeners_Cons:
  "fieldListeners (i # r) = (FieldT i, Blur, OnBlur i) # (FieldT i, Input, OnInput i) # fieldListeners r"
  by (simp add: fieldListeners_def)

lemma fieldListeners_Nil: "fieldListeners [] = []"
  by (simp add: fieldListeners_def)

lemma fold_fieldListeners_form:
  "fold (\<lambda>(t', ty', cb) q. if t' = FormT \<and> ty' = ty then run cb now q else q)
        (fieldListeners r) p = p"
  by (induction r) (simp_all add: fieldListeners_Cons fieldListeners_Nil)

lemma fold_fieldListeners_blur:
  "distinct r \<Longrightarrow>
   fold (\<lambda>(t', ty', cb) q. if t' = FieldT i \<and> ty' = Blur then run cb now q else q)
        (fieldListeners r) p = (if i \<in> set r then snd (validateAt i p) else p)"
  by (induction r arbitrary: p) (auto simp: fieldListeners_Cons fieldListeners_Nil)

lemma fold_fieldListeners_input:
  "distinct r \<Longrightarrow>
   fold (\<lambda>(t', ty', cb) q. if t' = FieldT i \<and> ty' = Input then run cb now q else q)
        (fieldListeners r) p = (if i \<in> set r then clearErrorAt i p else p)"
  by (induction r arbitrary: p) (auto simp: fieldListeners_Cons fieldListeners_Nil)

lemma ready_distinct: "ready e p \<Longrightarrow> distinct (req e)"
  by (simp add: ready_def)

lemma ready_sorted: "ready e p \<Longrightarrow> sorted (req e)"
  by (simp add: ready_def sorted_wrt_filter)

lemma ready_mem: "ready e p \<Longrightarrow> i \<in> set (req e) \<longleftrightarrow> i < length (controls p) \<and> required (controls p ! i)"
  by (auto simp: ready_def)

lemma dispatch_submit: "ready e p \<Longrightarrow> dispatch FormT Submit now p = onSubmit e now p"
  by (simp add: dispatch_def ready_def fold_fieldListeners_form)

lemma dispatch_blur:
  "ready e p \<Longrightarrow> dispatch (FieldT i) Blur now p = (if i \<in> set (req e) then snd (validateAt i p) else p)"
  using ready_distinct [of e p]
  by (simp add: dispatch_def ready_def fold_fieldListeners_blur del: distinct_filter)

lemma dispatch_input:
  "ready e p \<Longrightarrow> dispatch (FieldT i) Input now p = (if i \<in> set (req e) then clearErrorAt i p else p)"
  using ready_distinct [of e p]
  by (simp add: dispatch_def ready_def fold_fieldListeners_input)

lemma validateField_flag: "hasErrorClass (snd (validateField f)) = (\<not> fst (validateField f))"
  by (simp add: validateField_def Let_def hasErrorClass_clearError)
     (simp add: hasErrorClass_def classList_contains_def classList_add_def)

lemma validateField_aria:
  "ariaInvalid (snd (validateField f)) = (if fst (validateField f) then None else Some (ascii ''true''))"
  by (simp add: validateField_def Let_def clearError_def)

lemma find_first:
  "sorted xs \<Longrightarrow> \<exists>x\<in>set xs. P x \<Longrightarrow>
   \<exists>k::nat. find P xs = Some k \<and> k \<in> set xs \<and> P k \<and> (\<forall>j\<in>set xs. j < k \<longrightarrow> \<not> P j)"
proof (induction xs)
  case Nil
  then show ?case by simp
next
  case (Cons x xs)
  show ?case
  proof (cases "P x")
    case True
    then show ?thesis using Cons.prems(1) by auto
  next
    case False
    then have ex: "\<exists>y\<in>set xs. P y" using Cons.prems(2) by auto
    have so: "sorted xs" using Cons.prems(1) by simp
    from Cons.IH [OF so ex] obtain k where
      k: "find P xs = Some k" "k \<in> set xs" "P k" "\<forall>j\<in>set xs. j < k \<longrightarrow> \<not> P j"
      by blast
    then show ?thesis using False by auto
  qed
qed

lemma onSubmit_unfold:
  "onSubmit e now p =
    (let p1 = snd (validateEach (req e) True (p\<lparr>defaultPrevented := True\<rparr>))
     in if \<not> fst (validateEach (req e) True (p\<lparr>defaultPrevented := True\<rparr>))
        then (case find (\<lambda>i. i < length (controls p1) \<and> hasErrorClass (controls p1 ! i)) (req e) of
                Some first \<Rightarrow> p1\<lparr>activeElement := Some first\<rparr>
              | None \<Rightarrow> p1)
        else (case buildFormData now p1 of
                Inl x \<Rightarrow> p1\<lparr>uncaught := uncaught p1 @ [x]\<rparr>
              | Inr fd \<Rightarrow>
                  p1\<lparr>submitBtn := map_option (setSubmitting (btnSnapshot e) True) (submitBtn p1),
                     requests := requests p1 @ [mkRequest fd],
                     inflight := inflight p1 @ [(length (requests p1), e)]\<rparr>))"
  by (simp add: onSubmit_def Let_def case_prod_beta)

lemma onSubmit_controls:
  "controls (onSubmit e now p) =
     controls (snd (validateEach (req e) True (p\<lparr>defaultPrevented := True\<rparr>)))"
  by (simp add: onSubmit_unfold Let_def split: option.splits sum.splits)

lemma onSubmit_invalid:
  "\<not> fst (validateEach (req e) True (p\<lparr>defaultPrevented := True\<rparr>)) \<Longrightarrow>
   onSubmit e now p =
     (let p1 = snd (validateEach (req e) True (p\<lparr>defaultPrevented := True\<rparr>))
      in case find (\<lambda>i. i < length (controls p1) \<and> hasErrorClass (controls p1 ! i)) (req e) of
           Some first \<Rightarrow> p1\<lparr>activeElement := Some first\<rparr>
         | None \<Rightarrow> p1)"
  by (simp add: onSubmit_unfold Let_def)

lemma ready_valid:
  "ready e p \<Longrightarrow>
   fst (validateEach (req e) True (p\<lparr>defaultPrevented := True\<rparr>)) \<longleftrightarrow>
     (\<forall>i\<in>set (req e). passes (controls p ! i))"
  using ready_mem [of e p] by (simp add: validateEach_fst passes_def)

lemma ready_validated:
  assumes "ready e p" "i \<in> set (req e)"
  shows "controls (onSubmit e now p) ! i = snd (validateField (controls p ! i))"
proof -
  have "i < length (controls (p\<lparr>defaultPrevented := True\<rparr>))"
    using assms ready_mem [of e p i] by simp
  from validateEach_nth [OF this, of "req e" True] show ?thesis
    using assms(2) by (simp add: onSubmit_controls)
qed

lemma required_filter_map:
  "filter (\<lambda>i. required (cs ! i)) [0..<length cs]
     = filter (\<lambda>i. map required cs ! i) [0..<length (map required cs)]"
  by (rule filter_cong) simp_all

lemma ready_skeleton:
  assumes "skeleton q = skeleton p" "\<forall>x\<in>set (inflight q). snd x = e" "ready e p"
  shows "ready e q"
proof -
  have m: "map required (controls q) = map required (controls p)"
    using assms(1) by (simp add: skeleton_def)
  have "filter (\<lambda>i. required (controls q ! i)) [0..<length (controls q)]
      = filter (\<lambda>i. required (controls p ! i)) [0..<length (controls p)]"
    by (simp only: required_filter_map [of "controls q"] required_filter_map [of "controls p"] m)
  then show ?thesis
    using assms by (simp add: ready_def skeleton_def)
qed

lemma ready_inflight: "ready e p \<Longrightarrow> \<forall>x\<in>set (inflight p). snd x = e"
  by (simp add: ready_def)

lemma required_validateField [simp]: "required (snd (validateField f)) = required f"
  by (simp add: validateField_def Let_def clearError_def)

lemma fvalue_validateField [simp]: "fvalue (snd (validateField f)) = fvalue f"
  by (simp add: validateField_def Let_def clearError_def)

lemma fid_validateField [simp]: "fid (snd (validateField f)) = fid f"
  by (simp add: validateField_def Let_def clearError_def)

lemma map_required_update:
  "required g = required (cs ! i) \<Longrightarrow> map required (cs[i := g]) = map required cs"
  by (cases "i < length cs") (simp_all add: map_update list_update_same_conv list_update_beyond)

lemma skeleton_validateAt: "skeleton (snd (validateAt i p)) = skeleton p"
  by (simp add: validateAt_def skeleton_def map_required_update)

lemma skeleton_clearErrorAt: "skeleton (clearErrorAt i p) = skeleton p"
  by (simp add: clearErrorAt_def skeleton_def map_required_update clearError_def)

lemma inflight_clearErrorAt [simp]: "inflight (clearErrorAt i p) = inflight p"
  by (simp add: clearErrorAt_def)

lemma skeleton_validateEach: "skeleton (snd (validateEach ixs v p)) = skeleton p"
proof (induction ixs arbitrary: v p)
  case Nil
  show ?case by simp
next
  case (Cons i rest)
  show ?case
    using Cons.IH [of "if \<not> fst (validateAt i p) then False else v" "snd (validateAt i p)"]
    by (simp add: case_prod_beta skeleton_validateAt)
qed

lemma skeleton_clearEach: "skeleton (clearEach ixs p) = skeleton p"
  by (induction ixs arbitrary: p) (simp_all add: skeleton_clearErrorAt)

lemma inflight_clearEach [simp]: "inflight (clearEach ixs p) = inflight p"
  by (induction ixs arbitrary: p) simp_all

lemma inflight_validateEach [simp]: "inflight (snd (validateEach ixs v p)) = inflight p"
  by (subst validateEach_frame) simp

lemma skeleton_frame:
  "skeleton (p\<lparr>defaultPrevented := a\<rparr>) = skeleton p"
  "skeleton (p\<lparr>activeElement := b\<rparr>) = skeleton p"
  "skeleton (p\<lparr>uncaught := c\<rparr>) = skeleton p"
  "skeleton (p\<lparr>requests := d\<rparr>) = skeleton p"
  "skeleton (p\<lparr>inflight := f\<rparr>) = skeleton p"
  "skeleton (p\<lparr>alerts := g\<rparr>) = skeleton p"
  "skeleton (p\<lparr>timers := h\<rparr>) = skeleton p"
  "skeleton (p\<lparr>scrolls := k\<rparr>) = skeleton p"
  "skeleton (p\<lparr>submitBtn := map_option bf (submitBtn p)\<rparr>) = skeleton p"
  "skeleton (p\<lparr>formSuccess := map_option sf (formSuccess p)\<rparr>) = skeleton p"
  by (simp_all add: skeleton_def)

lemma skeleton_onSubmit: "skeleton (onSubmit e now p) = skeleton p"
proof -
  let ?p1 = "snd (validateEach (req e) True (p\<lparr>defaultPrevented := True\<rparr>))"
  have s1: "skeleton ?p1 = skeleton p"
    by (simp add: skeleton_validateEach skeleton_frame)
  have bt: "\<And>fd. skeleton (?p1\<lparr>submitBtn := map_option (setSubmitting (btnSnapshot e) True) (submitBtn ?p1),
                     requests := requests ?p1 @ [mkRequest fd],
                     inflight := inflight ?p1 @ [(length (requests ?p1), e)]\<rparr>) = skeleton ?p1"
    by (simp add: skeleton_def)
  show ?thesis
    unfolding onSubmit_unfold Let_def
    by (simp add: s1 bt skeleton_frame split: option.splits sum.splits)
qed

lemma inflight_onSubmit:
  "set (inflight (onSubmit e now p)) \<subseteq> set (inflight p) \<union> {(length (requests p), e)}"
proof -
  let ?p1 = "snd (validateEach (req e) True (p\<lparr>defaultPrevented := True\<rparr>))"
  have r: "requests ?p1 = requests p" by (subst validateEach_frame) simp
  show ?thesis
    unfolding onSubmit_unfold Let_def
    by (auto simp: r split: option.splits sum.splits)
qed

lemma ready_onSubmit: "ready e p \<Longrightarrow> ready e (onSubmit e now p)"
proof -
  assume rd: "ready e p"
  have i: "\<forall>x\<in>set (inflight (onSubmit e now p)). snd x = e"
    using inflight_onSubmit [of e now p] ready_inflight [OF rd] by fastforce
  show ?thesis
    using skeleton_onSubmit i rd by (rule ready_skeleton)
qed

lemma skeleton_form_reset: "skeleton (form_reset p) = skeleton p"
  by (simp add: form_reset_def skeleton_def comp_def)

lemma skeleton_thenSuccess: "skeleton (thenSuccess e p) = skeleton p"
proof -
  have "skeleton (clearEach (req e) (form_reset p)) = skeleton p"
    by (simp add: skeleton_clearEach skeleton_form_reset)
  then show ?thesis
    by (simp add: thenSuccess_def Let_def skeleton_def)
qed

lemma skeleton_thenRejected: "skeleton (thenRejected e p) = skeleton p"
  by (simp add: thenRejected_def Let_def skeleton_def)

lemma skeleton_catchFailure: "skeleton (catchFailure e p) = skeleton p"
  by (simp add: catchFailure_def Let_def skeleton_def)

lemma inflight_form_reset [simp]: "inflight (form_reset p) = inflight p"
  by (simp add: form_reset_def)

lemma inflight_thenSuccess [simp]: "inflight (thenSuccess e p) = inflight p"
  by (simp add: thenSuccess_def Let_def)

lemma inflight_thenRejected [simp]: "inflight (thenRejected e p) = inflight p"
  by (simp add: thenRejected_def Let_def)

lemma inflight_catchFailure [simp]: "inflight (catchFailure e p) = inflight p"
  by (simp add: catchFailure_def Let_def)

lemma settle_outcome: "settle e r p = runBranch (outcomeOf r) e p"
  by (cases r) (auto simp: settle_def thenData_def split: option.splits sum.splits)

lemma skeleton_runBranch: "skeleton (runBranch b e p) = skeleton p"
  by (cases b) (simp_all add: skeleton_thenSuccess skeleton_thenRejected skeleton_catchFailure)

lemma inflight_runBranch [simp]: "inflight (runBranch b e p) = inflight p"
  by (cases b) simp_all

lemma step_settle:
  "map_of (inflight p) k = Some e \<Longrightarrow>
   step (now, FetchSettles k r) p =
     runBranch (outcomeOf r) e (p\<lparr>inflight := filter (\<lambda>(k', _). k' \<noteq> k) (inflight p)\<rparr>)"
  by (simp add: settle_outcome)

lemma inflight_validateAt [simp]: "inflight (snd (validateAt i p)) = inflight p"
  by (simp add: validateAt_def)

lemma ready_blur: "ready e p \<Longrightarrow> ready e (step (now, UserBlur i) p)"
proof -
  assume rd: "ready e p"
  have i: "\<forall>x\<in>set (inflight (snd (validateAt i p))). snd x = e"
    using ready_inflight [OF rd] by simp
  have "ready e (snd (validateAt i p))"
    using skeleton_validateAt i rd by (rule ready_skeleton)
  then show ?thesis using rd by (simp add: dispatch_blur [OF rd])
qed

lemma ready_input: "ready e p \<Longrightarrow> ready e (step (now, UserInput i v) p)"
proof -
  assume rd: "ready e p"
  define q where "q = (if i < length (controls p)
      then p\<lparr>controls := (controls p)[i := (controls p ! i)\<lparr>fvalue := v\<rparr>]\<rparr> else p)"
  have sk: "skeleton q = skeleton p"
    by (simp add: q_def skeleton_def map_required_update)
  have iq: "\<forall>x\<in>set (inflight q). snd x = e"
    using ready_inflight [OF rd] by (simp add: q_def)
  have q: "ready e q"
    using sk iq rd by (rule ready_skeleton)
  have i: "\<forall>x\<in>set (inflight (clearErrorAt i q)). snd x = e"
    using iq by (simp only: inflight_clearErrorAt)
  have c: "ready e (clearErrorAt i q)"
    using skeleton_clearErrorAt i q by (rule ready_skeleton)
  have "step (now, UserInput i v) p = dispatch (FieldT i) Input now q"
    by (simp only: step.simps q_def)
  then have "step (now, UserInput i v) p = (if i \<in> set (req e) then clearErrorAt i q else q)"
    by (simp only: dispatch_input [OF q])
  then show ?thesis using q c by simp
qed

lemma ready_submit: "ready e p \<Longrightarrow> ready e (step (now, UserSubmit) p)"
  by (simp add: dispatch_submit ready_onSubmit)

lemma ready_settle: "ready e p \<Longrightarrow> ready e (step (now, FetchSettles k r) p)"
proof (cases "map_of (inflight p) k")
  case None
  assume "ready e p"
  then show ?thesis using None by simp
next
  case (Some e')
  assume rd: "ready e p"
  let ?q = "p\<lparr>inflight := filter (\<lambda>(k', _). k' \<noteq> k) (inflight p)\<rparr>"
  have sk: "skeleton (runBranch (outcomeOf r) e' ?q) = skeleton p"
    by (simp add: skeleton_runBranch skeleton_frame)
  have i: "\<forall>x\<in>set (inflight (runBranch (outcomeOf r) e' ?q)). snd x = e"
    using rd by (simp add: ready_def)
  have "ready e (runBranch (outcomeOf r) e' ?q)"
    using sk i rd by (rule ready_skeleton)
  then show ?thesis by (simp add: Some settle_outcome)
qed

lemma ready_timer: "ready e p \<Longrightarrow> ready e (step (now, TimerFires k) p)"
proof (cases "k < length (timers p)")
  case True
  assume rd: "ready e p"
  let ?q = "p\<lparr>timers := take k (timers p) @ drop (Suc k) (timers p)\<rparr>"
  have sk: "skeleton (runTimer (snd (timers p ! k)) ?q) = skeleton p"
    by (cases "snd (timers p ! k)") (simp add: skeleton_def)
  have i: "\<forall>x\<in>set (inflight (runTimer (snd (timers p ! k)) ?q)). snd x = e"
    using rd by (cases "snd (timers p ! k)") (simp add: ready_def)
  have "ready e (runTimer (snd (timers p ! k)) ?q)"
    using sk i rd by (rule ready_skeleton)
  then show ?thesis using True by simp
next
  case False
  assume "ready e p"
  then show ?thesis using False by simp
qed

lemma ready_step: "ready e p \<Longrightarrow> ready e (step ev p)"
proof -
  assume rd: "ready e p"
  obtain now a where ev: "ev = (now, a)" by (cases ev)
  show ?thesis
    unfolding ev using rd
    by (cases a) (simp_all only: ready_blur ready_input ready_submit ready_settle ready_timer)
qed


lemma ready_init:
  assumes "fresh p" "contactForm p" "formSuccess p \<noteq> None" "submitBtn p = Some b"
  shows "ready \<lparr>req = filter (\<lambda>i. required (controls p ! i)) [0..<length (controls p)],
                 btnSnapshot = map cloneNode (childNodes b)\<rparr> (initContactForm p)"
proof -
  have "initContactForm p =
      p\<lparr>listeners := fieldListeners (filter (\<lambda>i. required (controls p ! i)) [0..<length (controls p)])
          @ [(FormT, Submit, OnSubmit \<lparr>req = filter (\<lambda>i. required (controls p ! i)) [0..<length (controls p)],
                 btnSnapshot = map cloneNode (childNodes b)\<rparr>)]\<rparr>"
    using assms by (simp add: initContactForm_def fresh_def Let_def)
  then show ?thesis
    using assms by (simp add: ready_def fresh_def)
qed

subsection \<open>The clock\<close>

lemma div_unique_int: "0 \<le> s \<Longrightarrow> s < k \<Longrightarrow> (k * q + s) div k = (q::int)"
  by (simp add: div_pos_pos_trivial)

lemma mod_unique_int: "0 \<le> s \<Longrightarrow> s < k \<Longrightarrow> (k * q + s) mod k = (s::int)"
  by (simp add: mod_pos_pos_trivial)

lemma year_of_day:
  "DayFromYear (YearFromDay d) \<le> d \<and> d < DayFromYear (YearFromDay d) + DaysInYear (YearFromDay d)
   \<and> 400 * ((d + 719162) div 146097) < YearFromDay d
   \<and> YearFromDay d \<le> 400 * ((d + 719162) div 146097) + 400"
proof -
  define n where "n = d + 719162"
  define a where "a = n div 146097"
  define r where "r = n mod 146097"
  define q1 where "q1 = r div 36524"
  define b where "b = min q1 3"
  define r2 where "r2 = r - b * 36524"
  define c where "c = r2 div 1461"
  define r3 where "r3 = r2 mod 1461"
  define q3 where "q3 = r3 div 365"
  define e where "e = min q3 3"
  define y where "y = 400 * a + 100 * b + 4 * c + e + 1"
  have y: "YearFromDay d = y"
    by (simp add: YearFromDay_def Let_def y_def e_def q3_def r3_def c_def r2_def b_def q1_def
        r_def a_def n_def)
  have n: "n = 146097 * a + r" by (simp add: a_def r_def)
  have r: "0 \<le> r" "r < 146097" by (simp_all add: r_def)
  have rq: "r = 36524 * q1 + r mod 36524" by (simp add: q1_def)
  have rm: "0 \<le> r mod 36524" "r mod 36524 < 36524" by simp_all
  have q1: "0 \<le> q1" using r(1) by (simp add: q1_def)
  have b: "0 \<le> b" "b \<le> 3" using q1 by (simp_all add: b_def)
  have r2: "0 \<le> r2" "r2 \<le> 36524" "b < 3 \<longrightarrow> r2 < 36524"
    using r rq rm q1 unfolding r2_def b_def min_def by (simp_all split: if_splits) linarith+
  have r2c: "r2 = 1461 * c + r3" by (simp add: c_def r3_def)
  have r3: "0 \<le> r3" "r3 < 1461" by (simp_all add: r3_def)
  have c: "0 \<le> c" "c \<le> 24" using r2 r2c r3 by linarith+
  have r3q: "r3 = 365 * q3 + r3 mod 365" by (simp add: q3_def)
  have r3m: "0 \<le> r3 mod 365" "r3 mod 365 < 365" by simp_all
  have q3: "0 \<le> q3" using r3(1) by (simp add: q3_def)
  have e: "0 \<le> e" "e \<le> 3" using q3 by (simp_all add: e_def)
  have doy: "0 \<le> r3 - 365 * e" "r3 - 365 * e \<le> 365" "e < 3 \<longrightarrow> r3 - 365 * e < 365"
    using r3 r3q r3m q3 unfolding e_def min_def by (simp_all split: if_splits) linarith+
  have "y - 1969 = 4 * (100 * a + 25 * b + c - 492) + e" by (simp add: y_def)
  then have d4: "(y - 1969) div 4 = 100 * a + 25 * b + c - 492"
    using e by (simp only: div_unique_int)
  have "y - 1901 = 100 * (4 * a + b - 19) + (4 * c + e)" by (simp add: y_def)
  moreover have "0 \<le> 4 * c + e" "4 * c + e < 100" using c e by linarith+
  ultimately have d100: "(y - 1901) div 100 = 4 * a + b - 19"
    by (simp only: div_unique_int)
  have "y - 1601 = 400 * (a - 4) + (100 * b + 4 * c + e)" by (simp add: y_def)
  moreover have "0 \<le> 100 * b + 4 * c + e" "100 * b + 4 * c + e < 400" using b c e by linarith+
  ultimately have d400: "(y - 1601) div 400 = a - 4"
    by (simp only: div_unique_int)
  have dfy: "DayFromYear y = 146097 * a + 36524 * b + 1461 * c + 365 * e - 719162"
    unfolding DayFromYear_def d4 d100 d400 by (simp add: y_def)
  have dd: "d = 146097 * a + 36524 * b + 1461 * c + r3 - 719162"
    using n r2c by (simp add: n_def r2_def)
  have lo: "DayFromYear y \<le> d" using doy(1) by (simp add: dfy dd)
  have hi: "d < DayFromYear y + DaysInYear y"
  proof (cases "r3 - 365 * e < 365")
    case True
    have "365 \<le> DaysInYear y" by (simp add: DaysInYear_def)
    then show ?thesis using True by (simp add: dfy dd)
  next
    case False
    then have e3: "e = 3" and r31460: "r3 = 1460" using doy r3 e by linarith+
    have "y = 4 * (100 * a + 25 * b + c + 1) + 0" by (simp add: y_def e3)
    then have m4: "y mod 4 = 0" by (simp only: mod_unique_int)
    have leap: "DaysInYear y = 366"
    proof (cases "c = 24")
      case True
      then have "r2 = 36524" using r2c r31460 by simp
      then have "b = 3" using r2(3) b by linarith
      then have "y = 400 * (a + 1) + 0" by (simp add: y_def e3 True)
      then have "y mod 400 = 0" by (simp only: mod_unique_int)
      then show ?thesis using m4 by (simp add: DaysInYear_def)
    next
      case False
      have "y = 100 * (4 * a + b) + (4 * c + 4)" by (simp add: y_def e3)
      moreover have "0 \<le> 4 * c + 4" "4 * c + 4 < 100" using c False by linarith+
      ultimately have "y mod 100 = 4 * c + 4" by (simp only: mod_unique_int)
      then have "y mod 100 \<noteq> 0" using c by linarith
      then show ?thesis using m4 by (simp add: DaysInYear_def)
    qed
    show ?thesis using doy(2) by (simp add: dfy dd leap)
  qed
  have mag: "400 * a < y" "y \<le> 400 * a + 400" using b c e unfolding y_def by linarith+
  show ?thesis unfolding y using lo hi mag by (simp add: a_def n_def)
qed


lemma Day_bounds: "validTime t \<Longrightarrow> - 100000000 \<le> Day t \<and> Day t \<le> 100000000"
proof -
  assume v: "validTime t"
  have "(- 8640000000000000) div 86400000 \<le> t div (86400000::int)"
    using v by (intro zdiv_mono1) (simp_all add: validTime_def)
  moreover have "t div (86400000::int) \<le> 8640000000000000 div 86400000"
    using v by (intro zdiv_mono1) (simp_all add: validTime_def)
  ultimately show ?thesis by (simp add: Day_def msPerDay_def)
qed

lemma year_magnitude: "validTime t \<Longrightarrow> - 1000000 < YearFromTime t \<and> YearFromTime t < 1000000"
proof -
  assume v: "validTime t"
  define d where "d = Day t"
  define a where "a = (d + 719162) div 146097"
  have d: "- 100000000 \<le> d" "d \<le> 100000000" using Day_bounds [OF v] by (simp_all add: d_def)
  have "(- 100000000 + 719162) div 146097 \<le> a"
    unfolding a_def using d by (intro zdiv_mono1) simp_all
  moreover have "a \<le> (100000000 + 719162) div 146097"
    unfolding a_def using d by (intro zdiv_mono1) simp_all
  ultimately have a: "- 680 \<le> a" "a \<le> 689" by simp_all
  have "400 * a < YearFromDay d" "YearFromDay d \<le> 400 * a + 400"
    using year_of_day [of d] by (simp_all add: a_def)
  then show ?thesis using a by (simp add: YearFromTime_def d_def)
qed

lemma DayWithinYear_bounds:
  "0 \<le> DayWithinYear t \<and> DayWithinYear t < DaysInYear (YearFromTime t)"
  using year_of_day [of "Day t"] by (simp add: DayWithinYear_def YearFromTime_def)

lemma DaysInYear_cases: "DaysInYear y = 365 \<or> DaysInYear y = 366"
  by (simp add: DaysInYear_def)

lemma month_date:
  "0 \<le> MonthFromTime t \<and> MonthFromTime t \<le> 11 \<and> 1 \<le> DateFromTime t \<and>
   DateFromTime t \<le> daysInMonth (YearFromTime t) (MonthFromTime t + 1)"
proof -
  define d where "d = DayWithinYear t"
  define y where "y = YearFromTime t"
  have b: "0 \<le> d" "d < DaysInYear y" using DayWithinYear_bounds [of t] by (simp_all add: d_def y_def)
  show ?thesis
  proof (cases "DaysInYear y = 366")
    case True
    then have l: "InLeapYear t = 1" by (simp add: InLeapYear_def y_def)
    show ?thesis
      using b True
      unfolding MonthFromTime_def DateFromTime_def Let_def l d_def [symmetric] y_def [symmetric]
        daysInMonth_def
      by auto
  next
    case False
    then have n: "DaysInYear y = 365" using DaysInYear_cases [of y] by simp
    have l: "InLeapYear t = 0" using False by (simp add: InLeapYear_def y_def)
    show ?thesis
      using b n
      unfolding MonthFromTime_def DateFromTime_def Let_def l d_def [symmetric] y_def [symmetric]
        daysInMonth_def
      by auto
  qed
qed

lemma uint_digit: "uint (digit n) = 48 + n mod 10"
proof -
  have "nat (n mod 10) < 10" by simp
  then have m: "(48 + nat (n mod 10)) mod 2 ^ LENGTH(16) = 48 + nat (n mod 10)" by simp
  have "unat (digit n) = (48 + nat (n mod 10)) mod 2 ^ LENGTH(16)"
    unfolding digit_def by (rule unat_of_nat)
  then have "unat (digit n) = 48 + nat (n mod 10)"
    by (simp only: m)
  then have "uint (digit n) = int (48 + nat (n mod 10))" by (simp only: uint_nat)
  then show ?thesis by simp
qed

lemma isDigit_digit: "isDigit (digit n)"
proof -
  have "0 \<le> n mod 10" "n mod 10 < 10" by simp_all
  then show ?thesis
    by (simp add: isDigit_def word_le_def uint_digit)
qed

lemma digitValue_digit: "digitValue (digit n) = n mod 10"
  by (simp add: digitValue_def uint_digit)

lemma pad2: "pad 2 n = [digit (n div 10), digit n]"
  by (simp add: numeral_2_eq_2)

lemma pad3: "pad 3 n = [digit (n div 10 div 10), digit (n div 10), digit n]"
  by (simp add: numeral_3_eq_3)

lemma pad4: "pad 4 n = [digit (n div 10 div 10 div 10), digit (n div 10 div 10), digit (n div 10), digit n]"
  by (simp add: eval_nat_numeral)

lemma pad6:
  "pad 6 n = [digit (n div 10 div 10 div 10 div 10 div 10), digit (n div 10 div 10 div 10 div 10),
     digit (n div 10 div 10 div 10), digit (n div 10 div 10), digit (n div 10), digit n]"
  by (simp add: eval_nat_numeral)

lemma number2: "0 \<le> n \<Longrightarrow> n < 100 \<Longrightarrow> number [digit (n div 10), digit n] = n"
  by (simp add: number_def digitValue_digit)

lemma number4:
  "0 \<le> n \<Longrightarrow> n < 10000 \<Longrightarrow>
   number [digit (n div 10 div 10 div 10), digit (n div 10 div 10), digit (n div 10), digit n] = n"
  by (simp add: number_def digitValue_digit)

lemma number6:
  "0 \<le> n \<Longrightarrow> n < 1000000 \<Longrightarrow>
   number [digit (n div 10 div 10 div 10 div 10 div 10), digit (n div 10 div 10 div 10 div 10),
     digit (n div 10 div 10 div 10), digit (n div 10 div 10), digit (n div 10), digit n] = n"
  by (simp add: number_def digitValue_digit)

lemma daysInMonth_le: "daysInMonth y m \<le> 31"
  by (simp add: daysInMonth_def)

lemma iso_tail:
  assumes "1 \<le> mo" "mo \<le> 12" "1 \<le> dt" "dt \<le> daysInMonth y mo"
    and "0 \<le> h" "h \<le> 23" "0 \<le> mi" "mi \<le> 59" "0 \<le> s" "s \<le> 59"
  shows "isoDateTime y (ascii ''-'' @ pad 2 mo @ ascii ''-'' @ pad 2 dt @ ascii ''T'' @
     pad 2 h @ ascii '':'' @ pad 2 mi @ ascii '':'' @ pad 2 s @ ascii ''.'' @ pad 3 ms @ ascii ''Z'')"
proof -
  have dt: "dt < 100" using assms(4) daysInMonth_le [of y mo] by linarith
  have n: "number [digit (mo div 10), digit mo] = mo" "number [digit (dt div 10), digit dt] = dt"
    "number [digit (h div 10), digit h] = h" "number [digit (mi div 10), digit mi] = mi"
    "number [digit (s div 10), digit s] = s"
    using assms dt by (simp_all add: number2)
  show ?thesis
    using assms
    by (simp add: isoDateTime_def ascii_def pad2 pad3 isDigit_digit n)
qed

lemma length_pad: "length (pad k n) = k"
  by (induction k arbitrary: n) simp_all

lemma toISOString_iso:
  assumes "validTime t"
  shows "\<exists>ts. toISOString t = Inr ts \<and> isISO8601 ts"
proof -
  define y where "y = YearFromTime t"
  define tail where "tail = ascii ''-'' @ pad 2 (MonthFromTime t + 1) @ ascii ''-'' @
     pad 2 (DateFromTime t) @ ascii ''T'' @ pad 2 (HourFromTime t) @ ascii '':'' @
     pad 2 (MinFromTime t) @ ascii '':'' @ pad 2 (SecFromTime t) @ ascii ''.'' @
     pad 3 (msFromTime t) @ ascii ''Z''"
  have md: "0 \<le> MonthFromTime t" "MonthFromTime t \<le> 11" "1 \<le> DateFromTime t"
    "DateFromTime t \<le> daysInMonth y (MonthFromTime t + 1)"
    using month_date [of t] by (simp_all add: y_def)
  have tl: "isoDateTime y tail"
    unfolding tail_def using md
    by (intro iso_tail) (simp_all add: HourFromTime_def MinFromTime_def SecFromTime_def)
  have len: "length tail = 20" using tl by (simp add: isoDateTime_def)
  have mag: "- 1000000 < y" "y < 1000000" using year_magnitude [OF assms] by (simp_all add: y_def)
  show ?thesis
  proof (cases "0 \<le> y \<and> y \<le> 9999")
    case True
    have ts: "toISOString t = Inr (pad 4 y @ tail)"
      using assms True by (simp add: toISOString_def Let_def y_def [symmetric] tail_def)
    have "number (pad 4 y) = y" using True by (simp add: pad4 number4)
    then have "isISO8601 (pad 4 y @ tail)"
      using tl len
      by (simp add: isISO8601_def length_pad) (simp add: pad4 isDigit_digit)
    then show ?thesis using ts by simp
  next
    case False
    define sg :: "16 word" where "sg = (if 0 \<le> y then 0x2B else 0x2D)"
    have ts: "toISOString t = Inr (sg # pad 6 \<bar>y\<bar> @ tail)"
      using assms False
      by (simp add: toISOString_def Let_def y_def [symmetric] tail_def sg_def ascii_def)
    have ab: "0 \<le> \<bar>y\<bar>" "\<bar>y\<bar> < 1000000" using mag by simp_all
    have nm: "number (pad 6 \<bar>y\<bar>) = \<bar>y\<bar>" using ab by (simp only: pad6 number6)
    have sgn: "(if sg = 0x2D then - 1 else 1) * \<bar>y\<bar> = y" "sg = 0x2B \<or> sg = 0x2D"
      by (auto simp: sg_def)
    have dg: "list_all isDigit (pad 6 \<bar>y\<bar>)" by (simp add: pad6 isDigit_digit)
    have "isISO8601 (sg # pad 6 \<bar>y\<bar> @ tail)"
      using tl len nm sgn dg
      by (simp add: isISO8601_def length_pad)
    then show ?thesis using ts by simp
  qed
qed

subsection \<open>The claims\<close>

text \<open>
  C1. \<open>validateField\<close> returns false exactly when the trimmed value is empty, or the field is
  of email kind and its value is non-empty and has no \<open>@\<close>; a failing call leaves the field
  with the error class and \<open>aria-invalid="true"\<close>, a passing call leaves it with neither.
\<close>

theorem validateField_spec:
  "(\<not> fst (validateField f) \<longleftrightarrow>
      trim (fvalue f) = [] \<or>
      (ftype f = ascii ''email'' \<and> fvalue f \<noteq> [] \<and> 0x40 \<notin> set (fvalue f)))
   \<and> (if fst (validateField f)
      then \<not> hasErrorClass (snd (validateField f)) \<and> ariaInvalid (snd (validateField f)) = None
      else hasErrorClass (snd (validateField f)) \<and>
           ariaInvalid (snd (validateField f)) = Some (ascii ''true''))"
proof -
  have at: "ascii ''@'' = [0x40]"
    by (simp add: ascii_def)
  show ?thesis
    by (simp add: validateField_def Let_def at includes_single hasErrorClass_clearError)
       (simp add: hasErrorClass_def classList_contains_def classList_add_def clearError_def)
qed

theorem validateField_spec_witness:
  "\<not> fst (validateField (mkField ''cemail'' ''email'' ''not-an-email'' True))
   \<and> hasErrorClass (snd (validateField (mkField ''cemail'' ''email'' ''not-an-email'' True)))
   \<and> fst (validateField (mkField ''cemail'' ''email'' '' a@b.com '' True))
   \<and> ariaInvalid (snd (validateField (mkField ''cemail'' ''email'' '' a@b.com '' True))) = None"
  using validateField_spec [of "mkField ''cemail'' ''email'' ''not-an-email'' True"]
    validateField_spec [of "mkField ''cemail'' ''email'' '' a@b.com '' True"]
  by (simp add: mkField_def ascii_def trim_def isWhiteSpace_def split: if_splits)

text \<open>
  C2. On a submit event the loop over the required controls ends with \<open>valid\<close> true exactly
  when every required control validates; every required control is left as its own
  validation leaves it, so each invalid one carries the error class and each valid one does
  not; and when some control is invalid the focus goes to the invalid required control that
  comes first in the document.
\<close>

theorem validateAll_spec:
  assumes "ready e p"
  shows "(fst (validateEach (req e) True (p\<lparr>defaultPrevented := True\<rparr>)) \<longleftrightarrow>
            (\<forall>i\<in>set (req e). passes (controls p ! i)))
       \<and> (\<forall>i\<in>set (req e).
            controls (step (now, UserSubmit) p) ! i = snd (validateField (controls p ! i)) \<and>
            hasErrorClass (controls (step (now, UserSubmit) p) ! i) = (\<not> passes (controls p ! i)))
       \<and> (\<not> (\<forall>i\<in>set (req e). passes (controls p ! i)) \<longrightarrow>
            (\<exists>k\<in>set (req e). activeElement (step (now, UserSubmit) p) = Some k \<and>
               \<not> passes (controls p ! k) \<and> (\<forall>j\<in>set (req e). j < k \<longrightarrow> passes (controls p ! j))))"
proof (intro conjI)
  let ?p0 = "p\<lparr>defaultPrevented := True\<rparr>"
  let ?p1 = "snd (validateEach (req e) True ?p0)"
  have st: "step (now, UserSubmit) p = onSubmit e now p"
    using assms by (simp add: dispatch_submit)
  show "fst (validateEach (req e) True ?p0) \<longleftrightarrow> (\<forall>i\<in>set (req e). passes (controls p ! i))"
    using assms by (rule ready_valid)
  show "\<forall>i\<in>set (req e).
      controls (step (now, UserSubmit) p) ! i = snd (validateField (controls p ! i)) \<and>
      hasErrorClass (controls (step (now, UserSubmit) p) ! i) = (\<not> passes (controls p ! i))"
    unfolding st using assms by (simp add: ready_validated validateField_flag passes_def)
  show "\<not> (\<forall>i\<in>set (req e). passes (controls p ! i)) \<longrightarrow>
      (\<exists>k\<in>set (req e). activeElement (step (now, UserSubmit) p) = Some k \<and>
         \<not> passes (controls p ! k) \<and> (\<forall>j\<in>set (req e). j < k \<longrightarrow> passes (controls p ! j)))"
  proof
    assume inv: "\<not> (\<forall>i\<in>set (req e). passes (controls p ! i))"
    then have nv: "\<not> fst (validateEach (req e) True ?p0)"
      using ready_valid [OF assms] by simp
    have P: "\<And>i. i \<in> set (req e) \<Longrightarrow>
        (i < length (controls ?p1) \<and> hasErrorClass (controls ?p1 ! i)) = (\<not> passes (controls p ! i))"
    proof -
      fix i assume i: "i \<in> set (req e)"
      then have "i < length (controls p)" using assms ready_mem [of e p i] by simp
      moreover have "controls ?p1 ! i = snd (validateField (controls p ! i))"
        using ready_validated [OF assms i, of now] by (simp add: onSubmit_controls)
      ultimately show "(i < length (controls ?p1) \<and> hasErrorClass (controls ?p1 ! i))
          = (\<not> passes (controls p ! i))"
        by (simp add: validateEach_length validateField_flag passes_def)
    qed
    have fc: "find (\<lambda>i. i < length (controls ?p1) \<and> hasErrorClass (controls ?p1 ! i)) (req e)
        = find (\<lambda>i. \<not> passes (controls p ! i)) (req e)"
      by (rule find_cong) (simp_all add: P)
    from find_first [OF ready_sorted [OF assms], of "\<lambda>i. \<not> passes (controls p ! i)"] inv
    obtain k where k: "find (\<lambda>i. \<not> passes (controls p ! i)) (req e) = Some k"
      "k \<in> set (req e)" "\<not> passes (controls p ! k)"
      "\<forall>j\<in>set (req e). j < k \<longrightarrow> passes (controls p ! j)"
      by auto
    have "activeElement (onSubmit e now p) = Some k"
      by (simp add: onSubmit_invalid [OF nv] Let_def fc k(1))
    then show "\<exists>k\<in>set (req e). activeElement (step (now, UserSubmit) p) = Some k \<and>
         \<not> passes (controls p ! k) \<and> (\<forall>j\<in>set (req e). j < k \<longrightarrow> passes (controls p ! j))"
      unfolding st using k by auto
  qed
qed

theorem validateAll_spec_witness:
  "ready sampleEnv (initContactForm (samplePage (sampleControls '''' ''not-an-email'' ''1000'')))
   \<and> hasErrorClass (controls (step (0, UserSubmit)
         (initContactForm (samplePage (sampleControls '''' ''not-an-email'' ''1000'')))) ! 0)
   \<and> hasErrorClass (controls (step (0, UserSubmit)
         (initContactForm (samplePage (sampleControls '''' ''not-an-email'' ''1000'')))) ! 1)
   \<and> \<not> hasErrorClass (controls (step (0, UserSubmit)
         (initContactForm (samplePage (sampleControls '''' ''not-an-email'' ''1000'')))) ! 2)"
proof -
  let ?p = "initContactForm (samplePage (sampleControls '''' ''not-an-email'' ''1000''))"
  have r: "ready sampleEnv ?p" by code_simp
  have m: "0 \<in> set (req sampleEnv)" "1 \<in> set (req sampleEnv)" "2 \<in> set (req sampleEnv)"
    by (simp_all add: sampleEnv_def)
  have v: "\<not> passes (controls ?p ! 0)" "\<not> passes (controls ?p ! 1)" "passes (controls ?p ! 2)"
    by code_simp+
  have a: "\<forall>i\<in>set (req sampleEnv).
      hasErrorClass (controls (step (0, UserSubmit) ?p) ! i) = (\<not> passes (controls ?p ! i))"
    using validateAll_spec [OF r, of 0] by blast
  show ?thesis
    using bspec [OF a m(1)] bspec [OF a m(2)] bspec [OF a m(3)] v r by simp
qed

lemma validateEach_others:
  "requests (snd (validateEach ixs v p)) = requests p"
  "submitBtn (snd (validateEach ixs v p)) = submitBtn p"
  "formSuccess (snd (validateEach ixs v p)) = formSuccess p"
  "alerts (snd (validateEach ixs v p)) = alerts p"
  "timers (snd (validateEach ixs v p)) = timers p"
  "scrolls (snd (validateEach ixs v p)) = scrolls p"
  "uncaught (snd (validateEach ixs v p)) = uncaught p"
  "activeElement (snd (validateEach ixs v p)) = activeElement p"
  by (subst validateEach_frame, simp)+

lemma onSubmit_invalid_others:
  assumes "\<not> fst (validateEach (req e) True (p\<lparr>defaultPrevented := True\<rparr>))"
  shows "requests (onSubmit e now p) = requests p"
    and "inflight (onSubmit e now p) = inflight p"
    and "submitBtn (onSubmit e now p) = submitBtn p"
    and "alerts (onSubmit e now p) = alerts p"
    and "timers (onSubmit e now p) = timers p"
    and "formSuccess (onSubmit e now p) = formSuccess p"
  by (simp_all add: onSubmit_invalid [OF assms] Let_def validateEach_others split: option.splits)

text \<open>
  C3. A submit event on a page where some required control does not validate issues no
  request and leaves no request in flight, leaves the submit control as it was (neither
  disabled nor relabelled), and leaves every invalid required control with the error
  class and \<open>aria-invalid="true"\<close>.
\<close>

theorem submit_invalid_aborts:
  assumes "ready e p" and "\<not> (\<forall>i\<in>set (req e). passes (controls p ! i))"
  shows "requests (step (now, UserSubmit) p) = requests p
       \<and> inflight (step (now, UserSubmit) p) = inflight p
       \<and> submitBtn (step (now, UserSubmit) p) = submitBtn p
       \<and> (\<forall>i\<in>set (req e). \<not> passes (controls p ! i) \<longrightarrow>
             hasErrorClass (controls (step (now, UserSubmit) p) ! i) \<and>
             ariaInvalid (controls (step (now, UserSubmit) p) ! i) = Some (ascii ''true''))"
proof -
  have st: "step (now, UserSubmit) p = onSubmit e now p"
    using assms(1) by (simp add: dispatch_submit)
  have nv: "\<not> fst (validateEach (req e) True (p\<lparr>defaultPrevented := True\<rparr>))"
    using ready_valid [OF assms(1)] assms(2) by simp
  have "\<forall>i\<in>set (req e). \<not> passes (controls p ! i) \<longrightarrow>
      hasErrorClass (controls (onSubmit e now p) ! i) \<and>
      ariaInvalid (controls (onSubmit e now p) ! i) = Some (ascii ''true'')"
    using assms(1) by (simp add: ready_validated validateField_flag validateField_aria passes_def)
  then show ?thesis
    unfolding st by (simp add: onSubmit_invalid_others [OF nv])
qed

theorem submit_invalid_aborts_witness:
  "ready sampleEnv (initContactForm (samplePage (sampleControls ''Alice '' ''not-an-email'' ''1000'')))
   \<and> requests (step (0, UserSubmit)
        (initContactForm (samplePage (sampleControls ''Alice '' ''not-an-email'' ''1000'')))) = []
   \<and> hasErrorClass (controls (step (0, UserSubmit)
        (initContactForm (samplePage (sampleControls ''Alice '' ''not-an-email'' ''1000'')))) ! 1)
   \<and> activeElement (step (0, UserSubmit)
        (initContactForm (samplePage (sampleControls ''Alice '' ''not-an-email'' ''1000'')))) = Some 1"
proof -
  let ?p = "initContactForm (samplePage (sampleControls ''Alice '' ''not-an-email'' ''1000''))"
  have r: "ready sampleEnv ?p" by code_simp
  have m: "1 \<in> set (req sampleEnv)" by (simp add: sampleEnv_def)
  have v: "\<not> passes (controls ?p ! 1)" by code_simp
  have n: "\<not> (\<forall>i\<in>set (req sampleEnv). passes (controls ?p ! i))" using m v by blast
  have q: "requests ?p = []" by code_simp
  have f: "activeElement (step (0, UserSubmit) ?p) = Some 1" by code_simp
  show ?thesis
    using submit_invalid_aborts [OF r n, of 0] m v r q f by simp
qed

lemma trim_spec:
  "(\<exists>a b. s = a @ trim s @ b \<and> list_all isWhiteSpace a \<and> list_all isWhiteSpace b)
   \<and> (trim s \<noteq> [] \<longrightarrow> \<not> isWhiteSpace (hd (trim s)) \<and> \<not> isWhiteSpace (last (trim s)))"
proof -
  define u where "u = dropWhile isWhiteSpace s"
  define w where "w = dropWhile isWhiteSpace (rev u)"
  have t: "trim s = rev w" by (simp add: trim_def u_def w_def)
  have s: "s = takeWhile isWhiteSpace s @ u" by (simp add: u_def)
  have "rev u = takeWhile isWhiteSpace (rev u) @ w" by (simp add: w_def)
  then have "rev (rev u) = rev (takeWhile isWhiteSpace (rev u) @ w)" by (rule arg_cong)
  then have u: "u = rev w @ rev (takeWhile isWhiteSpace (rev u))" by simp
  have a: "list_all isWhiteSpace (takeWhile isWhiteSpace s)"
    by (simp add: list_all_iff) (meson set_takeWhileD)
  have b: "list_all isWhiteSpace (rev (takeWhile isWhiteSpace (rev u)))"
    by (simp add: list_all_iff) (meson set_takeWhileD)
  have dec: "s = takeWhile isWhiteSpace s @ trim s @ rev (takeWhile isWhiteSpace (rev u))"
    using s u by (simp add: t)
  have ends: "trim s \<noteq> [] \<longrightarrow> \<not> isWhiteSpace (hd (trim s)) \<and> \<not> isWhiteSpace (last (trim s))"
  proof
    assume ne: "trim s \<noteq> []"
    then have wne: "w \<noteq> []" by (simp add: t)
    then have "\<not> isWhiteSpace (hd w)" unfolding w_def by (rule hd_dropWhile)
    then have l: "\<not> isWhiteSpace (last (trim s))" using wne by (simp add: t last_rev)
    have une: "u \<noteq> []" using u wne by auto
    then have "\<not> isWhiteSpace (hd u)" unfolding u_def by (rule hd_dropWhile)
    moreover have "hd u = hd (rev w)" using u wne by (metis hd_append2 rev_is_Nil_conv)
    ultimately show "\<not> isWhiteSpace (hd (trim s)) \<and> \<not> isWhiteSpace (last (trim s))"
      using l by (simp add: t)
  qed
  show ?thesis using dec a b ends by blast
qed

lemma valueOf_map_of:
  "valueOf ident p =
    (case map_of (map (\<lambda>f. (fid f, fvalue f)) (controls p)) ident of
       None \<Rightarrow> Inl TypeError | Some v \<Rightarrow> Inr v)"
proof -
  have "map_option fvalue (find (\<lambda>f. fid f = ident) cs)
      = map_of (map (\<lambda>f. (fid f, fvalue f)) cs) ident" for cs
    by (induction cs) auto
  from this [of "controls p", symmetric] show ?thesis
    by (simp add: valueOf_def split: option.splits)
qed

lemma values_validateAt:
  "map (\<lambda>f. (fid f, fvalue f)) (controls (snd (validateAt i p)))
     = map (\<lambda>f. (fid f, fvalue f)) (controls p)"
  by (simp add: validateAt_def map_update list_update_same_conv)

lemma values_validateEach:
  "map (\<lambda>f. (fid f, fvalue f)) (controls (snd (validateEach ixs v p)))
     = map (\<lambda>f. (fid f, fvalue f)) (controls p)"
proof (induction ixs arbitrary: v p)
  case Nil
  show ?case by simp
next
  case (Cons i rest)
  show ?case
    using Cons.IH [of "if \<not> fst (validateAt i p) then False else v" "snd (validateAt i p)"]
    by (simp add: case_prod_beta values_validateAt)
qed

lemma valueOf_validateEach:
  "valueOf ident (snd (validateEach ixs v (p\<lparr>defaultPrevented := a\<rparr>))) = valueOf ident p"
  by (simp add: valueOf_map_of values_validateEach)

lemma buildFormData_validateEach:
  "buildFormData now (snd (validateEach ixs v (p\<lparr>defaultPrevented := a\<rparr>))) = buildFormData now p"
  unfolding buildFormData_def valueOf_validateEach by (rule refl)

lemma sampleReady_ready: "ready sampleEnv sampleReady"
  by code_simp

lemma sampleReady_values:
  "valueOf (ascii ''cname'') sampleReady = Inr (ascii ''Alice '')"
  "valueOf (ascii ''cemail'') sampleReady = Inr (ascii ''a@b.com'')"
  "valueOf (ascii ''cbusiness'') sampleReady = Inr (ascii ''Acme'')"
  "valueOf (ascii ''cdesc'') sampleReady = Inr (ascii ''Need a site'')"
  "valueOf (ascii ''cbudget'') sampleReady = Inr (ascii ''1000'')"
  by code_simp+

lemma sampleReady_valid: "\<forall>i\<in>set (req sampleEnv). passes (controls sampleReady ! i)"
  by code_simp

text \<open>
  C4 (as amended). On a page that has the five controls \<open>#cname\<close>, \<open>#cemail\<close>,
  \<open>#cbusiness\<close>, \<open>#cdesc\<close> and \<open>#cbudget\<close>, a submit event on which every required
  control validates issues exactly one request: a POST to the relay endpoint whose body
  has the members \<open>name\<close>, \<open>email\<close>, \<open>business\<close>, \<open>description\<close>, \<open>budget\<close>,
  \<open>timestamp\<close>, \<open>_replyto\<close> and \<open>_subject\<close>. The name, email, business and description
  are the trimmed values of their controls; the budget is the value of its control as it
  is; the timestamp is what the clock gives at the event, a date and time of ISO 8601;
  \<open>_replyto\<close> is the trimmed email and \<open>_subject\<close> ends with the trimmed business.
\<close>

theorem submit_valid_posts:
  assumes "ready e p" and "\<forall>i\<in>set (req e). passes (controls p ! i)"
    and "valueOf (ascii ''cname'') p = Inr n" and "valueOf (ascii ''cemail'') p = Inr m"
    and "valueOf (ascii ''cbusiness'') p = Inr b" and "valueOf (ascii ''cdesc'') p = Inr d"
    and "valueOf (ascii ''cbudget'') p = Inr g" and "validTime now"
  shows "\<exists>ts. toISOString now = Inr ts \<and> isISO8601 ts \<and>
     requests (step (now, UserSubmit) p) = requests p @
       [\<lparr>url = ascii ''https://formspree.io/f/xnjbrllk'', httpMethod = ascii ''POST'',
         headers = [(ascii ''Content-Type'', ascii ''application/json''),
                    (ascii ''Accept'', ascii ''application/json'')],
         body = JObj [(ascii ''name'', JStr (trim n)), (ascii ''email'', JStr (trim m)),
                      (ascii ''business'', JStr (trim b)), (ascii ''description'', JStr (trim d)),
                      (ascii ''budget'', JStr g), (ascii ''timestamp'', JStr ts),
                      (ascii ''_replyto'', JStr (trim m)),
                      (ascii ''_subject'', JStr (ascii ''New consultation request '' @ [0x2014] @
                          ascii '' '' @ trim b))]\<rparr>]"
proof -
  from toISOString_iso [OF assms(8)] obtain ts where
    ts: "toISOString now = Inr ts" "isISO8601 ts" by blast
  have st: "step (now, UserSubmit) p = onSubmit e now p"
    using assms(1) by (simp add: dispatch_submit)
  have v: "fst (validateEach (req e) True (p\<lparr>defaultPrevented := True\<rparr>))"
    using ready_valid [OF assms(1)] assms(2) by simp
  have fd: "buildFormData now p = Inr \<lparr>fd_name = trim n, fd_email = trim m,
      fd_business = trim b, fd_description = trim d, fd_budget = g, fd_timestamp = ts\<rparr>"
    using assms(3-7) ts(1) by (simp add: buildFormData_def)
  have "requests (onSubmit e now p) = requests p @
      [mkRequest \<lparr>fd_name = trim n, fd_email = trim m,
      fd_business = trim b, fd_description = trim d, fd_budget = g, fd_timestamp = ts\<rparr>]"
    using v by (simp add: onSubmit_unfold Let_def buildFormData_validateEach fd validateEach_others)
  then show ?thesis
    using ts unfolding st by (simp add: mkRequest_def subjectPrefix_def)
qed

theorem submit_valid_posts_witness:
  "ready sampleEnv sampleReady \<and> list_all (\<lambda>i. passes (controls sampleReady ! i)) (req sampleEnv)
   \<and> validTime 1709164800000
   \<and> map (member (ascii ''name'') \<circ> body) (requests (step (1709164800000, UserSubmit) sampleReady))
       = [Some (JStr (ascii ''Alice''))]
   \<and> map (member (ascii ''timestamp'') \<circ> body)
        (requests (step (1709164800000, UserSubmit) sampleReady))
       = [Some (JStr (ascii ''2024-02-29T00:00:00.000Z''))]"
proof -
  have t: "validTime 1709164800000" by (simp add: validTime_def)
  have i: "toISOString 1709164800000 = Inr (ascii ''2024-02-29T00:00:00.000Z'')" by code_simp
  have q: "requests sampleReady = []" by code_simp
  have a: "trim (ascii ''Alice '') = ascii ''Alice''" by code_simp
  have n: "ascii ''name'' \<noteq> ascii ''timestamp''" "ascii ''email'' \<noteq> ascii ''timestamp''"
    "ascii ''business'' \<noteq> ascii ''timestamp''" "ascii ''description'' \<noteq> ascii ''timestamp''"
    "ascii ''budget'' \<noteq> ascii ''timestamp''"
    by (simp_all add: ascii_def)
  from submit_valid_posts [OF sampleReady_ready sampleReady_valid sampleReady_values t]
  obtain ts where "toISOString 1709164800000 = Inr ts"
    and "requests (step (1709164800000, UserSubmit) sampleReady) = requests sampleReady @
       [\<lparr>url = ascii ''https://formspree.io/f/xnjbrllk'', httpMethod = ascii ''POST'',
         headers = [(ascii ''Content-Type'', ascii ''application/json''),
                    (ascii ''Accept'', ascii ''application/json'')],
         body = JObj [(ascii ''name'', JStr (trim (ascii ''Alice ''))),
                      (ascii ''email'', JStr (trim (ascii ''a@b.com''))),
                      (ascii ''business'', JStr (trim (ascii ''Acme''))),
                      (ascii ''description'', JStr (trim (ascii ''Need a site''))),
                      (ascii ''budget'', JStr (ascii ''1000'')), (ascii ''timestamp'', JStr ts),
                      (ascii ''_replyto'', JStr (trim (ascii ''a@b.com''))),
                      (ascii ''_subject'', JStr (ascii ''New consultation request '' @ [0x2014] @
                          ascii '' '' @ trim (ascii ''Acme'')))]\<rparr>]"
    by blast
  then show ?thesis
    using sampleReady_ready sampleReady_valid t i q a n by (simp add: list_all_iff del: step.simps)
qed

text \<open>
  C4 as stated fails: a budget with surrounding spaces is sent with them; and on a page
  without the budget control the lookup of line 209 throws and no request is issued.
\<close>

theorem budget_untrimmed_counterexample:
  "map (member (ascii ''budget'') \<circ> body) (requests (step (0, UserSubmit)
      (initContactForm (samplePage (sampleControls ''Alice '' ''a@b.com'' '' 1000 '')))))
     = [Some (JStr (ascii '' 1000 ''))]
   \<and> trim (ascii '' 1000 '') \<noteq> ascii '' 1000 ''
   \<and> requests (step (0, UserSubmit)
        (initContactForm (samplePage (take 4 (sampleControls ''Alice '' ''a@b.com'' ''1000''))))) = []
   \<and> uncaught (step (0, UserSubmit)
        (initContactForm (samplePage (take 4 (sampleControls ''Alice '' ''a@b.com'' ''1000'')))))
      = [TypeError]"
  by code_simp

lemma clearError_idem: "clearError (clearError f) = clearError f"
  by (simp add: clearError_def classList_remove_idem)

lemma clearEach_frame: "clearEach ixs p = p\<lparr>controls := controls (clearEach ixs p)\<rparr>"
proof (induction ixs arbitrary: p)
  case Nil
  show ?case by simp
next
  case (Cons i rest)
  have eq: "clearEach (i # rest) p = clearEach rest (clearErrorAt i p)" by simp
  have c: "clearErrorAt i p = p\<lparr>controls := controls (clearErrorAt i p)\<rparr>"
    by (simp add: clearErrorAt_def)
  show ?case
    unfolding eq by (subst Cons.IH, subst (2) c) simp
qed


lemma clearEach_nth:
  "j < length (controls p) \<Longrightarrow>
   controls (clearEach ixs p) ! j =
     (if j \<in> set ixs then clearError (controls p ! j) else controls p ! j)"
proof (induction ixs arbitrary: p)
  case Nil
  show ?case by simp
next
  case (Cons i rest)
  have len: "j < length (controls (clearErrorAt i p))"
    using Cons.prems by (simp add: clearErrorAt_def)
  show ?case
    using Cons.IH [OF len] Cons.prems
    by (auto simp: clearErrorAt_def nth_list_update clearError_idem)
qed

lemma clearEach_others:
  "requests (clearEach ixs p) = requests p"
  "submitBtn (clearEach ixs p) = submitBtn p"
  "formSuccess (clearEach ixs p) = formSuccess p"
  "alerts (clearEach ixs p) = alerts p"
  "timers (clearEach ixs p) = timers p"
  "scrolls (clearEach ixs p) = scrolls p"
  by (subst clearEach_frame, simp)+

lemma map_cloneNode: "map cloneNode ns = ns"
  by (induction ns) (simp_all add: cloneNode_def)

lemma setSubmitting_False:
  "setSubmitting snap False b = b\<lparr>disabled := False, childNodes := snap\<rparr>"
  by (simp add: setSubmitting_def map_cloneNode Let_def)


lemma thenSuccess_effects:
  "submitBtn (thenSuccess e p) = map_option (setSubmitting (btnSnapshot e) False) (submitBtn p)"
  "formSuccess (thenSuccess e p) = map_option (\<lambda>_. False) (formSuccess p)"
  "scrolls (thenSuccess e p) = Suc (scrolls p)"
  "timers (thenSuccess e p) = timers p @ [(8000, HideSuccess)]"
  "alerts (thenSuccess e p) = alerts p"
  "requests (thenSuccess e p) = requests p"
  "controls (thenSuccess e p) = controls (clearEach (req e) (form_reset p))"
  by (simp_all add: thenSuccess_def Let_def clearEach_others form_reset_def)

lemma thenRejected_effects:
  "submitBtn (thenRejected e p) = map_option (setSubmitting (btnSnapshot e) False) (submitBtn p)"
  "formSuccess (thenRejected e p) = formSuccess p"
  "scrolls (thenRejected e p) = scrolls p"
  "timers (thenRejected e p) = timers p"
  "alerts (thenRejected e p) = alerts p @ [alertRejected]"
  "requests (thenRejected e p) = requests p"
  "controls (thenRejected e p) = controls p"
  by (simp_all add: thenRejected_def Let_def)

lemma catchFailure_effects:
  "submitBtn (catchFailure e p) = map_option (setSubmitting (btnSnapshot e) False) (submitBtn p)"
  "formSuccess (catchFailure e p) = formSuccess p"
  "scrolls (catchFailure e p) = scrolls p"
  "timers (catchFailure e p) = timers p"
  "alerts (catchFailure e p) = alerts p @ [alertNetwork]"
  "requests (catchFailure e p) = requests p"
  "controls (catchFailure e p) = controls p"
  by (simp_all add: catchFailure_def Let_def)

lemma alerts_differ: "alertRejected \<noteq> alertNetwork"
  by (simp add: alertRejected_def alertNetwork_def ascii_def)

lemma thenSuccess_controls:
  assumes "j < length (controls p)"
  shows "controls (thenSuccess e p) ! j =
     (if j \<in> set (req e) then clearError ((controls p ! j)\<lparr>fvalue := defaultValue (controls p ! j)\<rparr>)
      else (controls p ! j)\<lparr>fvalue := defaultValue (controls p ! j)\<rparr>)"
proof -
  have "j < length (controls (form_reset p))" using assms by (simp add: form_reset_def)
  from clearEach_nth [OF this, of "req e"] show ?thesis
    using assms by (simp add: thenSuccess_effects form_reset_def)
qed








lemma ready_button: "ready e p \<Longrightarrow> \<exists>b. submitBtn p = Some b"
  by (simp add: ready_def)


lemma sampleSubmitted_ready: "ready sampleEnv sampleSubmitted"
  by code_simp

lemma sampleSubmitted_inflight: "map_of (inflight sampleSubmitted) 0 = Some sampleEnv"
  by code_simp

lemma sampleSubmitted_state:
  "timers sampleSubmitted = []" "alerts sampleSubmitted = []"
  "formSuccess sampleSubmitted = Some True" "scrolls sampleSubmitted = 0"
  by code_simp+




text \<open>
  C6. When the response leads to the rejection branch or the failure branch, the submit
  control is enabled with the children it had at initialisation, one alert is shown, the
  two branches show different alerts, the controls of the form are unchanged, and the
  success element, the timers and the scroll position are untouched.
\<close>

theorem failure_branches:
  assumes rd: "ready e p" and fl: "map_of (inflight p) k = Some e" and no: "outcomeOf r \<noteq> Success"
  shows "(\<exists>b. submitBtn (step (now, FetchSettles k r) p) = Some b \<and> \<not> disabled b \<and>
            childNodes b = btnSnapshot e)
    \<and> alerts (step (now, FetchSettles k r) p) =
         alerts p @ [if outcomeOf r = RemoteRejection then alertRejected else alertNetwork]
    \<and> alertRejected \<noteq> alertNetwork
    \<and> controls (step (now, FetchSettles k r) p) = controls p
    \<and> formSuccess (step (now, FetchSettles k r) p) = formSuccess p
    \<and> timers (step (now, FetchSettles k r) p) = timers p
    \<and> scrolls (step (now, FetchSettles k r) p) = scrolls p"
proof -
  define p0 where "p0 = p\<lparr>inflight := filter (\<lambda>(k', _). k' \<noteq> k) (inflight p)\<rparr>"
  have st: "step (now, FetchSettles k r) p = runBranch (outcomeOf r) e p0"
    using step_settle [OF fl, of now r] by (simp add: p0_def)
  obtain b where b: "submitBtn p = Some b" using ready_button [OF rd] by blast
  show ?thesis
  proof (cases "outcomeOf r")
    case Success
    then show ?thesis using no by simp
  next
    case RemoteRejection
    show ?thesis
      unfolding st RemoteRejection
      by (simp add: thenRejected_effects p0_def b setSubmitting_False alerts_differ)
  next
    case NetworkFailure
    show ?thesis
      unfolding st NetworkFailure
      by (simp add: catchFailure_effects p0_def b setSubmitting_False alerts_differ)
  qed
qed

theorem failure_branches_witness:
  "ready sampleEnv sampleSubmitted \<and> map_of (inflight sampleSubmitted) 0 = Some sampleEnv
   \<and> outcomeOf (okBody (JBool False)) = RemoteRejection \<and> outcomeOf Rejects = NetworkFailure
   \<and> alerts (step (1, FetchSettles 0 (okBody (JBool False))) sampleSubmitted) = [alertRejected]
   \<and> alerts (step (1, FetchSettles 0 Rejects) sampleSubmitted) = [alertNetwork]
   \<and> controls (step (1, FetchSettles 0 Rejects) sampleSubmitted) = controls sampleSubmitted
   \<and> formSuccess (step (1, FetchSettles 0 Rejects) sampleSubmitted) = Some True"
proof -
  note r = sampleSubmitted_ready and f = sampleSubmitted_inflight
  have o: "outcomeOf (okBody (JBool False)) = RemoteRejection" "outcomeOf Rejects = NetworkFailure"
    by code_simp+
  note a = sampleSubmitted_state(2,3)
  show ?thesis
    using failure_branches [OF r f, of "okBody (JBool False)" 1]
      failure_branches [OF r f, of Rejects 1] r f o a by simp
qed





lemma hasErrorClass_fvalue: "hasErrorClass (f\<lparr>fvalue := v\<rparr>) = hasErrorClass f"
  by (simp add: hasErrorClass_def)

lemma passes_clearError: "passes (clearError f) = passes f"
  by (simp add: passes_def validateField_def Let_def clearError_def)

lemma step_input:
  assumes "ready e p"
  shows "step (now, UserInput i v) p =
    (if i < length (controls p)
     then (if i \<in> set (req e)
           then p\<lparr>controls := (controls p)[i := clearError ((controls p ! i)\<lparr>fvalue := v\<rparr>)]\<rparr>
           else p\<lparr>controls := (controls p)[i := (controls p ! i)\<lparr>fvalue := v\<rparr>]\<rparr>)
     else p)"
proof -
  define q where "q = (if i < length (controls p)
      then p\<lparr>controls := (controls p)[i := (controls p ! i)\<lparr>fvalue := v\<rparr>]\<rparr> else p)"
  have sq: "skeleton q = skeleton p" by (simp add: q_def skeleton_def map_required_update)
  have iq: "\<forall>x\<in>set (inflight q). snd x = e"
    using ready_inflight [OF assms] by (simp add: q_def)
  have rq: "ready e q" using sq iq assms by (rule ready_skeleton)
  have "step (now, UserInput i v) p = dispatch (FieldT i) Input now q"
    by (simp only: step.simps q_def)
  also have "\<dots> = (if i \<in> set (req e) then clearErrorAt i q else q)"
    by (rule dispatch_input [OF rq])
  finally show ?thesis
    using ready_mem [OF assms, of i] by (auto simp: q_def clearErrorAt_def)
qed

lemma step_blur:
  assumes "ready e p" "i \<in> set (req e)"
  shows "controls (step (now, UserBlur i) p) = (controls p)[i := snd (validateField (controls p ! i))]"
  using assms ready_mem [OF assms(1), of i]
  by (simp add: dispatch_blur [OF assms(1)] validateAt_def)

lemma no_new_error:
  assumes rd: "ready e p" and nv: "\<not> validates a" and j: "j < length (controls p)"
    and h: "hasErrorClass (controls (step (t, a) p) ! j)"
  shows "hasErrorClass (controls p ! j)"
proof (cases a)
  case (UserBlur i)
  then show ?thesis using nv by simp
next
  case (UserInput i v)
  show ?thesis
    using h j unfolding UserInput step_input [OF rd]
    by (auto simp: nth_list_update hasErrorClass_clearError hasErrorClass_fvalue split: if_splits)
next
  case UserSubmit
  then show ?thesis using nv by simp
next
  case (FetchSettles k r)
  show ?thesis
  proof (cases "map_of (inflight p) k")
    case None
    then show ?thesis using h by (simp add: FetchSettles)
  next
    case (Some e')
    define p0 where "p0 = p\<lparr>inflight := filter (\<lambda>(k', _). k' \<noteq> k) (inflight p)\<rparr>"
    have st: "step (t, a) p = runBranch (outcomeOf r) e' p0"
      using step_settle [OF Some, of t r] by (simp add: FetchSettles p0_def)
    have j0: "j < length (controls p0)" using j by (simp add: p0_def)
    show ?thesis
    proof (cases "outcomeOf r")
      case Success
      show ?thesis
        using h thenSuccess_controls [OF j0, of e'] unfolding st Success
        by (auto simp: p0_def hasErrorClass_clearError hasErrorClass_fvalue split: if_splits)
    next
      case RemoteRejection
      show ?thesis
        using h unfolding st RemoteRejection by (simp add: thenRejected_effects p0_def)
    next
      case NetworkFailure
      show ?thesis
        using h unfolding st NetworkFailure by (simp add: catchFailure_effects p0_def)
    qed
  qed
next
  case (TimerFires k)
  have "controls (step (t, TimerFires k) p) = controls p"
    by (cases "snd (timers p ! k)") simp
  then show ?thesis using h by (simp only: TimerFires)
qed


















text \<open>
  C9. An input event on a required control leaves it as \<open>clearError\<close> leaves the control
  with its new value: without the error class and without \<open>aria-invalid\<close>, whether or not
  the new value validates; the next blur flags it exactly when the value does not
  validate. No event other than a blur or a submit gives any control the error class.
\<close>

theorem input_clears_without_validating:
  assumes "ready e p" and "i \<in> set (req e)"
  shows "controls (step (now, UserInput i v) p) ! i = clearError ((controls p ! i)\<lparr>fvalue := v\<rparr>)
    \<and> \<not> hasErrorClass (controls (step (now, UserInput i v) p) ! i)
    \<and> ariaInvalid (controls (step (now, UserInput i v) p) ! i) = None
    \<and> passes (controls (step (now, UserInput i v) p) ! i) = passes ((controls p ! i)\<lparr>fvalue := v\<rparr>)
    \<and> hasErrorClass (controls (step (t, UserBlur i) (step (now, UserInput i v) p)) ! i)
         = (\<not> passes ((controls p ! i)\<lparr>fvalue := v\<rparr>))
    \<and> (\<forall>a t' j. \<not> validates a \<and> j < length (controls p) \<and>
          hasErrorClass (controls (step (t', a) p) ! j) \<longrightarrow> hasErrorClass (controls p ! j))"
proof -
  have i: "i < length (controls p)" using ready_mem [OF assms(1)] assms(2) by simp
  define q where "q = step (now, UserInput i v) p"
  have c: "controls q = (controls p)[i := clearError ((controls p ! i)\<lparr>fvalue := v\<rparr>)]"
    unfolding q_def step_input [OF assms(1)] using i assms(2) by simp
  have n: "controls q ! i = clearError ((controls p ! i)\<lparr>fvalue := v\<rparr>)"
    using i by (simp add: c)
  have rq: "ready e q" unfolding q_def using assms(1) by (rule ready_step)
  have b: "controls (step (t, UserBlur i) q) ! i = snd (validateField (controls q ! i))"
    unfolding step_blur [OF rq assms(2)] using i by (simp add: c)
  have "hasErrorClass (controls (step (t, UserBlur i) q) ! i)
      = (\<not> passes ((controls p ! i)\<lparr>fvalue := v\<rparr>))"
    by (simp only: b validateField_flag n) (simp add: passes_clearError passes_def [symmetric])
  moreover have "\<forall>a t' j. \<not> validates a \<and> j < length (controls p) \<and>
      hasErrorClass (controls (step (t', a) p) ! j) \<longrightarrow> hasErrorClass (controls p ! j)"
    using no_new_error [OF assms(1)] by blast
  moreover have "ariaInvalid (controls q ! i) = None" by (simp add: n clearError_def)
  ultimately show ?thesis
    using n unfolding q_def by (simp add: hasErrorClass_clearError passes_clearError)
qed

theorem input_clears_without_validating_witness:
  "ready sampleEnv sampleFlagged \<and> hasErrorClass (controls sampleFlagged ! 1)
   \<and> \<not> hasErrorClass (controls (step (1, UserInput 1 (ascii ''still-bad'')) sampleFlagged) ! 1)
   \<and> \<not> passes (controls (step (1, UserInput 1 (ascii ''still-bad'')) sampleFlagged) ! 1)
   \<and> hasErrorClass (controls (step (2, UserBlur 1)
         (step (1, UserInput 1 (ascii ''still-bad'')) sampleFlagged)) ! 1)"
proof -
  have r: "ready sampleEnv sampleFlagged" by code_simp
  have m: "1 \<in> set (req sampleEnv)" by (simp add: sampleEnv_def)
  have h: "hasErrorClass (controls sampleFlagged ! 1)" by code_simp
  have v: "\<not> passes ((controls sampleFlagged ! 1)\<lparr>fvalue := ascii ''still-bad''\<rparr>)" by code_simp
  show ?thesis
    using input_clears_without_validating [OF r m, of 1 "ascii ''still-bad''" 2] r h v
    by blast
qed

lemma inert_step:
  assumes "listeners p = []" "inflight p = []" "timers p = []"
  shows "listeners (step ev p) = [] \<and> inflight (step ev p) = [] \<and> timers (step ev p) = []
    \<and> requests (step ev p) = requests p
    \<and> map classList (controls (step ev p)) = map classList (controls p)
    \<and> map ariaInvalid (controls (step ev p)) = map ariaInvalid (controls p)"
proof -
  obtain now a where ev: "ev = (now, a)" by (cases ev)
  show ?thesis
    unfolding ev using assms
    by (cases a) (simp_all add: dispatch_def map_update list_update_same_conv)
qed

lemma inert_steps:
  assumes "listeners p = []" "inflight p = []" "timers p = []"
  shows "listeners (steps evs p) = [] \<and> requests (steps evs p) = requests p
    \<and> map classList (controls (steps evs p)) = map classList (controls p)
    \<and> map ariaInvalid (controls (steps evs p)) = map ariaInvalid (controls p)"
  using assms
proof (induction evs arbitrary: p)
  case Nil
  then show ?case by (simp add: steps_def)
next
  case (Cons ev evs)
  have s: "steps (ev # evs) p = steps evs (step ev p)" by (simp add: steps_def)
  from inert_step [OF Cons.prems, of ev] Cons.IH [of "step ev p"] show ?case
    unfolding s by simp
qed

text \<open>
  C10. On a page without the form or without the success element \<open>initContactForm\<close>
  changes nothing, and whatever events follow, no listener is registered, no request is
  issued and no control changes its class list or its \<open>aria-invalid\<close> attribute.
\<close>

theorem init_without_elements:
  assumes "\<not> contactForm p \<or> formSuccess p = None" and "fresh p"
  shows "initContactForm p = p
    \<and> (\<forall>evs. listeners (steps evs (initContactForm p)) = []
          \<and> requests (steps evs (initContactForm p)) = []
          \<and> map classList (controls (steps evs (initContactForm p))) = map classList (controls p)
          \<and> map ariaInvalid (controls (steps evs (initContactForm p))) = map ariaInvalid (controls p))"
proof -
  have i: "initContactForm p = p" using assms(1) by (auto simp: initContactForm_def)
  have f: "listeners p = []" "inflight p = []" "timers p = []" "requests p = []"
    using assms(2) by (simp_all add: fresh_def)
  show ?thesis
    unfolding i using inert_steps [OF f(1,2,3)] f(4) by simp
qed

theorem init_without_elements_witness:
  "fresh ((samplePage (sampleControls '''' ''not-an-email'' ''1000''))\<lparr>formSuccess := None\<rparr>)
   \<and> listeners (steps [(0, UserBlur 1), (1, UserSubmit)] (initContactForm
        ((samplePage (sampleControls '''' ''not-an-email'' ''1000''))\<lparr>formSuccess := None\<rparr>))) = []
   \<and> requests (steps [(0, UserBlur 1), (1, UserSubmit)] (initContactForm
        ((samplePage (sampleControls '''' ''not-an-email'' ''1000''))\<lparr>formSuccess := None\<rparr>))) = []
   \<and> map classList (controls (steps [(0, UserBlur 1), (1, UserSubmit)] (initContactForm
        ((samplePage (sampleControls '''' ''not-an-email'' ''1000''))\<lparr>formSuccess := None\<rparr>))))
       = [[], [], [], [], []]"
proof -
  let ?p = "(samplePage (sampleControls '''' ''not-an-email'' ''1000''))\<lparr>formSuccess := None\<rparr>"
  have f: "fresh ?p" by (simp add: fresh_def samplePage_def)
  have n: "\<not> contactForm ?p \<or> formSuccess ?p = None" by simp
  have c: "map classList (controls ?p) = [[], [], [], [], []]"
    by (simp add: samplePage_def sampleControls_def mkField_def)
  have a: "\<forall>evs. listeners (steps evs (initContactForm ?p)) = []
      \<and> requests (steps evs (initContactForm ?p)) = []
      \<and> map classList (controls (steps evs (initContactForm ?p))) = map classList (controls ?p)
      \<and> map ariaInvalid (controls (steps evs (initContactForm ?p))) = map ariaInvalid (controls ?p)"
    using init_without_elements [OF n f] by (rule conjunct2)
  show ?thesis
    using spec [OF a, of "[(0, UserBlur 1), (1, UserSubmit)]"] f c by simp
qed

end
